theory Spec2Isabelle
  imports Main "HOL-Library.Word" "HOL-Library.AList"
begin

section \<open>The MQTT client of the remote event admin provider (celix\_earpm\_client.c)\<close>

text \<open>
  The development embeds the publish pipeline, the admission check, the waiting queue, the
  synchronous publish protocol and the subscription ledger of \<^verbatim>\<open>celix_earpm_client.c\<close>.
  All functions below run with the client mutex held, as in the source; what other threads
  do while a caller is blocked on a condition variable is an explicit argument.
\<close>

subsection \<open>Status codes, priorities and QoS levels\<close>

datatype celix_status_t =
    CELIX_SUCCESS
  | CELIX_ILLEGAL_ARGUMENT
  | CELIX_BUNDLE_EXCEPTION
  | CELIX_ILLEGAL_STATE
  | ENOMEM
  | ENOTCONN
  | ETIMEDOUT
  | EINVAL

datatype celix_earpmc_message_priority_e =
    CELIX_EARPMC_MSG_PRI_LOW
  | CELIX_EARPMC_MSG_PRI_MIDDLE
  | CELIX_EARPMC_MSG_PRI_HIGH

text \<open>
  Modelled from the spec: the enum \<^verbatim>\<open>celix_earpmc_message_priority_e\<close> is declared in
  \<^verbatim>\<open>celix_earpm_client.h\<close>, which is not among the sources. The spec orders the classes
  LOW, MEDIUM, HIGH; the source compares them with \<^verbatim>\<open>>=\<close>, which is the order of the ranks.
\<close>

fun pri_rank :: "celix_earpmc_message_priority_e \<Rightarrow> nat" where
  "pri_rank CELIX_EARPMC_MSG_PRI_LOW = 0"
| "pri_rank CELIX_EARPMC_MSG_PRI_MIDDLE = 1"
| "pri_rank CELIX_EARPMC_MSG_PRI_HIGH = 2"

type_synonym celix_earpm_qos_e = int

text \<open>
  Modelled from the spec: the enum \<^verbatim>\<open>celix_earpm_qos_e\<close> is declared in
  \<^verbatim>\<open>celix_earpm_constants.h\<close>, which is not among the sources. The spec gives the QoS
  levels 0, 1 and 2 and a distinguished unknown value; the source treats exactly the values
  above the unknown one as meaningful, so the sentinel lies below every level.
\<close>

definition CELIX_EARPM_QOS_UNKNOWN :: celix_earpm_qos_e where
  "CELIX_EARPM_QOS_UNKNOWN = - 1"

definition CELIX_EARPM_QOS_AT_MOST_ONCE :: celix_earpm_qos_e where
  "CELIX_EARPM_QOS_AT_MOST_ONCE = 0"

definition CELIX_EARPM_QOS_AT_LEAST_ONCE :: celix_earpm_qos_e where
  "CELIX_EARPM_QOS_AT_LEAST_ONCE = 1"

definition CELIX_EARPM_QOS_EXACTLY_ONCE :: celix_earpm_qos_e where
  "CELIX_EARPM_QOS_EXACTLY_ONCE = 2"

definition MOSQ_ERR_SUCCESS :: int where
  "MOSQ_ERR_SUCCESS = 0"

definition MQTT_RC_SUCCESS :: int where
  "MQTT_RC_SUCCESS = 0"

subsection \<open>Messages, the message pool and the client\<close>

text \<open>The protocol properties of a message are an opaque blob for the client.\<close>

type_synonym mosquitto_property = string

text \<open>
  \<^verbatim>\<open>struct celix_earpmc_msg\<close>. A \<^verbatim>\<open>NULL\<close> pointer is \<open>None\<close>; the payload buffer is
  the list of its bytes. The back pointer \<^verbatim>\<open>msgPool\<close> always names the one pool of the
  client and the queue linkage \<^verbatim>\<open>entry\<close> is the position in the list that holds the
  message, so neither is a field here.
\<close>

record celix_earpmc_msg =
  ref :: int
  topic :: string
  payload :: "string option"
  payloadSize :: nat
  qos :: celix_earpm_qos_e
  pri :: celix_earpmc_message_priority_e
  sync :: bool
  mqttProps :: "mosquitto_property option"
  seqNr :: int
  mqttMid :: int
  error :: celix_status_t

text \<open>
  \<^verbatim>\<open>struct celix_earpmc_msg_pool\<close>: \<^verbatim>\<open>cap\<close> preallocated blocks, addressed by their index
  in \<^verbatim>\<open>msgBlocks\<close>; a pointer to a message is the index of its block. The array is the
  list of the blocks written so far, each with its index; \<^verbatim>\<open>calloc\<close> has filled all the
  others with zeros. The counters are \<^verbatim>\<open>size_t\<close>, 64 bits wide.
\<close>

record celix_earpmc_msg_pool =
  cap :: "64 word"
  usedSize :: "64 word"
  freeMsgList :: "nat list"
  msgBlocks :: "(nat \<times> celix_earpmc_msg) list"

text \<open>The calls made on the mosquitto handle, in the order they are made.\<close>

datatype mosq_call =
    Subscribe string celix_earpm_qos_e
  | Unsubscribe string
  | Publish string int "string option" celix_earpm_qos_e "mosquitto_property option"

text \<open>
  \<^verbatim>\<open>struct celix_earpm_client\<close>, the fields the mutex protects. The hash maps are
  association lists in iteration order. \<^verbatim>\<open>mosq\<close> records the calls made on the mosquitto
  handle, \<^verbatim>\<open>nextSeqNr\<close> is the static counter of \<^verbatim>\<open>celix_earpmc_messageCreate\<close> and
  \<^verbatim>\<open>allocs\<close> counts the allocation attempts made so far.
\<close>

record celix_earpm_client =
  parallelMsgCap :: "64 word"
  freeMsgPool :: celix_earpmc_msg_pool
  waitingMessages :: "nat list"
  publishingMessages :: "(int \<times> nat) list"
  publishedMessages :: "(int \<times> nat) list"
  subscriptions :: "(string \<times> celix_earpm_qos_e) list"
  connected :: bool
  nextSeqNr :: int
  mosq :: "mosq_call list"
  allocs :: nat

text \<open>
  The environment of a run: the return code and the message id the mosquitto library gives
  to its n-th call, and whether the n-th allocation attempt succeeds.
\<close>

record env =
  wire_rc :: "nat \<Rightarrow> int"
  wire_mid :: "nat \<Rightarrow> int"
  mem_ok :: "nat \<Rightarrow> bool"

definition zero_msg :: celix_earpmc_msg where
  "zero_msg = \<lparr>ref = 0, topic = [], payload = None, payloadSize = 0, qos = 0,
     pri = CELIX_EARPMC_MSG_PRI_LOW, sync = False, mqttProps = None, seqNr = 0, mqttMid = 0,
     error = CELIX_SUCCESS\<rparr>"

definition msg_at :: "celix_earpm_client \<Rightarrow> nat \<Rightarrow> celix_earpmc_msg" where
  "msg_at c p = (case map_of (msgBlocks (freeMsgPool c)) p of None \<Rightarrow> zero_msg | Some m \<Rightarrow> m)"

definition upd_msg ::
  "nat \<Rightarrow> (celix_earpmc_msg \<Rightarrow> celix_earpmc_msg) \<Rightarrow> celix_earpm_client \<Rightarrow> celix_earpm_client" where
  "upd_msg p f c =
     c\<lparr>freeMsgPool := (freeMsgPool c)\<lparr>msgBlocks :=
         AList.update p (f (msg_at c p)) (msgBlocks (freeMsgPool c))\<rparr>\<rparr>"

definition celix_earpmc_msgPoolInit :: "64 word \<Rightarrow> celix_earpmc_msg_pool" where
  "celix_earpmc_msgPoolInit n =
     \<lparr>cap = n, usedSize = 0, freeMsgList = [0 ..< unat n], msgBlocks = []\<rparr>"

definition celix_earpmc_msgPoolAlloc ::
  "celix_earpmc_msg_pool \<Rightarrow> nat option \<times> celix_earpmc_msg_pool" where
  "celix_earpmc_msgPoolAlloc pool =
     (case freeMsgList pool of
        [] \<Rightarrow> (None, pool)
      | p # rest \<Rightarrow> (Some p, pool\<lparr>freeMsgList := rest, usedSize := usedSize pool + 1\<rparr>))"

definition celix_earpmc_msgPoolFree ::
  "celix_earpmc_msg_pool \<Rightarrow> nat \<Rightarrow> celix_earpmc_msg_pool" where
  "celix_earpmc_msgPoolFree pool p =
     pool\<lparr>freeMsgList := freeMsgList pool @ [p], usedSize := usedSize pool - 1\<rparr>"

text \<open>
  \<^verbatim>\<open>celix_earpmc_create\<close>: the two capacities are validated against the maximum
  \<^verbatim>\<open>CELIX_EARPM_MSG_QUEUE_MAX_SIZE\<close> (a constant of a header that is not among the
  sources, hence the parameter \<open>maxSize\<close>); \<open>resources_ok\<close> says that the framework UUID,
  the mutex, the condition variables, the maps, the mosquitto instance and the thread could
  all be created. The client starts disconnected with empty queues.
\<close>

definition new_client :: "64 word \<Rightarrow> 64 word \<Rightarrow> celix_earpm_client" where
  "new_client msgQueueCap parallelCap =
     \<lparr>parallelMsgCap = parallelCap, freeMsgPool = celix_earpmc_msgPoolInit msgQueueCap,
      waitingMessages = [], publishingMessages = [], publishedMessages = [],
      subscriptions = [], connected = False, nextSeqNr = 0, mosq = [], allocs = 0\<rparr>"

definition celix_earpmc_create :: "int \<Rightarrow> bool \<Rightarrow> int \<Rightarrow> int \<Rightarrow> celix_earpm_client option" where
  "celix_earpmc_create maxSize resources_ok msgQueueCap parallelCap =
     (if msgQueueCap \<le> 0 \<or> msgQueueCap > maxSize then None
      else if parallelCap \<le> 0 \<or> parallelCap > maxSize then None
      else if \<not> resources_ok then None
      else Some (new_client (word_of_int msgQueueCap) (word_of_int parallelCap)))"

subsection \<open>Reference counting\<close>

text \<open>
  \<^verbatim>\<open>celix_earpmc_messageDestroy\<close> frees the properties (which resets the pointer), the
  payload and the topic (\<^verbatim>\<open>free\<close> leaves those two pointers as they are) and gives the
  block back to the pool.
\<close>

definition celix_earpmc_messageDestroy :: "celix_earpm_client \<Rightarrow> nat \<Rightarrow> celix_earpm_client" where
  "celix_earpmc_messageDestroy c p =
     (let c1 = upd_msg p (\<lambda>m. m\<lparr>mqttProps := None\<rparr>) c
      in c1\<lparr>freeMsgPool := celix_earpmc_msgPoolFree (freeMsgPool c1) p\<rparr>)"

definition celix_earpmc_messageRetain :: "celix_earpm_client \<Rightarrow> nat \<Rightarrow> celix_earpm_client" where
  "celix_earpmc_messageRetain c p = upd_msg p (\<lambda>m. m\<lparr>ref := ref m + 1\<rparr>) c"

text \<open>\<^verbatim>\<open>celix_ref_put\<close>: the count is decremented and the message destroyed when it reaches 0.\<close>

definition celix_earpmc_messageRelease :: "celix_earpm_client \<Rightarrow> nat \<Rightarrow> celix_earpm_client" where
  "celix_earpmc_messageRelease c p =
     (let c1 = upd_msg p (\<lambda>m. m\<lparr>ref := ref m - 1\<rparr>) c
      in if ref (msg_at c1 p) = 0 then celix_earpmc_messageDestroy c1 p else c1)"

subsection \<open>The hash maps\<close>

text \<open>
  Modelled from the spec: the hash maps of the utilities library are not among the sources.
  They are maps from keys to values; the publishing and the published map are created with
  \<^verbatim>\<open>celix_earpmc_messageRelease\<close> as removed callback, so a message is released when its
  entry is removed or its value is replaced. Only the insertion of a new key allocates.
\<close>

definition publishingMessages_put ::
  "env \<Rightarrow> celix_earpm_client \<Rightarrow> int \<Rightarrow> nat \<Rightarrow> celix_status_t \<times> celix_earpm_client" where
  "publishingMessages_put E c k p =
     (case map_of (publishingMessages c) k of
        Some old \<Rightarrow>
          (CELIX_SUCCESS,
           celix_earpmc_messageRelease
             (c\<lparr>publishingMessages := AList.update k p (publishingMessages c)\<rparr>) old)
      | None \<Rightarrow>
          (if mem_ok E (allocs c)
           then (CELIX_SUCCESS,
                 c\<lparr>publishingMessages := publishingMessages c @ [(k, p)], allocs := Suc (allocs c)\<rparr>)
           else (ENOMEM, c\<lparr>allocs := Suc (allocs c)\<rparr>)))"

definition publishingMessages_remove ::
  "celix_earpm_client \<Rightarrow> int \<Rightarrow> bool \<times> celix_earpm_client" where
  "publishingMessages_remove c k =
     (case map_of (publishingMessages c) k of
        None \<Rightarrow> (False, c)
      | Some old \<Rightarrow>
          (True,
           celix_earpmc_messageRelease
             (c\<lparr>publishingMessages := AList.delete k (publishingMessages c)\<rparr>) old))"

definition publishedMessages_put ::
  "env \<Rightarrow> celix_earpm_client \<Rightarrow> int \<Rightarrow> nat \<Rightarrow> celix_status_t \<times> celix_earpm_client" where
  "publishedMessages_put E c k p =
     (case map_of (publishedMessages c) k of
        Some old \<Rightarrow>
          (CELIX_SUCCESS,
           celix_earpmc_messageRelease
             (c\<lparr>publishedMessages := AList.update k p (publishedMessages c)\<rparr>) old)
      | None \<Rightarrow>
          (if mem_ok E (allocs c)
           then (CELIX_SUCCESS,
                 c\<lparr>publishedMessages := publishedMessages c @ [(k, p)], allocs := Suc (allocs c)\<rparr>)
           else (ENOMEM, c\<lparr>allocs := Suc (allocs c)\<rparr>)))"

definition publishedMessages_remove ::
  "celix_earpm_client \<Rightarrow> int \<Rightarrow> bool \<times> celix_earpm_client" where
  "publishedMessages_remove c k =
     (case map_of (publishedMessages c) k of
        None \<Rightarrow> (False, c)
      | Some old \<Rightarrow>
          (True,
           celix_earpmc_messageRelease
             (c\<lparr>publishedMessages := AList.delete k (publishedMessages c)\<rparr>) old))"

definition subscriptions_getLong ::
  "celix_earpm_client \<Rightarrow> string \<Rightarrow> celix_earpm_qos_e \<Rightarrow> celix_earpm_qos_e" where
  "subscriptions_getLong c k dflt = (case map_of (subscriptions c) k of None \<Rightarrow> dflt | Some v \<Rightarrow> v)"

definition subscriptions_putLong ::
  "env \<Rightarrow> celix_earpm_client \<Rightarrow> string \<Rightarrow> celix_earpm_qos_e \<Rightarrow> celix_status_t \<times> celix_earpm_client" where
  "subscriptions_putLong E c k v =
     (case map_of (subscriptions c) k of
        Some old \<Rightarrow> (CELIX_SUCCESS, c\<lparr>subscriptions := AList.update k v (subscriptions c)\<rparr>)
      | None \<Rightarrow>
          (if mem_ok E (allocs c)
           then (CELIX_SUCCESS,
                 c\<lparr>subscriptions := subscriptions c @ [(k, v)], allocs := Suc (allocs c)\<rparr>)
           else (ENOMEM, c\<lparr>allocs := Suc (allocs c)\<rparr>)))"

definition subscriptions_remove :: "celix_earpm_client \<Rightarrow> string \<Rightarrow> celix_earpm_client" where
  "subscriptions_remove c k = c\<lparr>subscriptions := AList.delete k (subscriptions c)\<rparr>"

subsection \<open>The mosquitto library\<close>

text \<open>
  The library is outside the client: each call is recorded on the handle and answered by
  the environment. A publish also hands out the message id of the packet.
\<close>

definition mosquitto_subscribe_v5 ::
  "env \<Rightarrow> celix_earpm_client \<Rightarrow> string \<Rightarrow> celix_earpm_qos_e \<Rightarrow> int \<times> celix_earpm_client" where
  "mosquitto_subscribe_v5 E c t q =
     (wire_rc E (length (mosq c)), c\<lparr>mosq := mosq c @ [Subscribe t q]\<rparr>)"

definition mosquitto_unsubscribe ::
  "env \<Rightarrow> celix_earpm_client \<Rightarrow> string \<Rightarrow> int \<times> celix_earpm_client" where
  "mosquitto_unsubscribe E c t =
     (wire_rc E (length (mosq c)), c\<lparr>mosq := mosq c @ [Unsubscribe t]\<rparr>)"

definition mosquitto_publish_v5 ::
  "env \<Rightarrow> celix_earpm_client \<Rightarrow> string \<Rightarrow> int \<Rightarrow> string option \<Rightarrow> celix_earpm_qos_e \<Rightarrow>
     mosquitto_property option \<Rightarrow> (int \<times> int) \<times> celix_earpm_client" where
  "mosquitto_publish_v5 E c t len pl q props =
     ((wire_rc E (length (mosq c)), wire_mid E (length (mosq c))),
      c\<lparr>mosq := mosq c @ [Publish t len pl q props]\<rparr>)"

subsection \<open>The subscription ledger\<close>

definition celix_earpmc_validateTopic :: "string \<Rightarrow> bool" where
  "celix_earpmc_validateTopic t =
     (if length t = 0 \<or> length t > 1024 then False
      else if list_ex (\<lambda>ch. ch \<in> set ''#+$'') t then False
      else True)"

text \<open>
  The local buffer \<^verbatim>\<open>mqttTopic\<close> of subscribe and unsubscribe: a trailing \<^verbatim>\<open>*\<close> is
  overwritten by \<^verbatim>\<open>#\<close>, and \<^verbatim>\<open>topic\<close> points to the buffer from then on.
\<close>

definition mqttTopic :: "string \<Rightarrow> string" where
  "mqttTopic t = (if last t = CHR ''*'' then butlast t @ ''#'' else t)"

definition celix_earpmc_subscribe ::
  "env \<Rightarrow> celix_earpm_client \<Rightarrow> string \<Rightarrow> celix_earpm_qos_e \<Rightarrow> celix_status_t \<times> celix_earpm_client" where
  "celix_earpmc_subscribe E c t0 q =
     (if \<not> celix_earpmc_validateTopic t0 then (CELIX_ILLEGAL_ARGUMENT, c)
      else
        let t = mqttTopic t0;
            oldQos = subscriptions_getLong c t CELIX_EARPM_QOS_UNKNOWN;
            (status, c1) = subscriptions_putLong E c t q
        in if status \<noteq> CELIX_SUCCESS then (status, c1)
           else if connected c1 then
             (let (rc, c2) = mosquitto_subscribe_v5 E c1 t q
              in if rc \<noteq> MOSQ_ERR_SUCCESS then
                   (CELIX_BUNDLE_EXCEPTION,
                    if oldQos \<noteq> CELIX_EARPM_QOS_UNKNOWN
                    then snd (subscriptions_putLong E c2 t oldQos)
                    else subscriptions_remove c2 t)
                 else (CELIX_SUCCESS, c2))
           else (CELIX_SUCCESS, c1))"

definition celix_earpmc_unsubscribe ::
  "env \<Rightarrow> celix_earpm_client \<Rightarrow> string \<Rightarrow> celix_status_t \<times> celix_earpm_client" where
  "celix_earpmc_unsubscribe E c t0 =
     (if \<not> celix_earpmc_validateTopic t0 then (CELIX_ILLEGAL_ARGUMENT, c)
      else
        let t = mqttTopic t0
        in if connected c then
             (let c1 = subscriptions_remove c t;
                  (rc, c2) = mosquitto_unsubscribe E c1 t
              in if rc \<noteq> MOSQ_ERR_SUCCESS then (CELIX_BUNDLE_EXCEPTION, c2)
                 else (CELIX_SUCCESS, c2))
           else
             (let (status, c1) = subscriptions_putLong E c t CELIX_EARPM_QOS_UNKNOWN
              in if status \<noteq> CELIX_SUCCESS then (status, c1) else (CELIX_SUCCESS, c1)))"

text \<open>
  \<^verbatim>\<open>celix_earpmc_refreshSubscriptions\<close> walks the ledger with an iterator: an entry with
  a meaningful QoS is subscribed again, an entry with the sentinel is unsubscribed and
  removed through the iterator.
\<close>

fun refreshSubscriptions_loop ::
  "env \<Rightarrow> (string \<times> celix_earpm_qos_e) list \<Rightarrow> celix_earpm_client \<Rightarrow> celix_earpm_client" where
  "refreshSubscriptions_loop E [] c = c"
| "refreshSubscriptions_loop E ((t, q) # es) c =
     (if q > CELIX_EARPM_QOS_UNKNOWN
      then refreshSubscriptions_loop E es (snd (mosquitto_subscribe_v5 E c t q))
      else refreshSubscriptions_loop E es
             (subscriptions_remove (snd (mosquitto_unsubscribe E c t)) t))"

definition celix_earpmc_refreshSubscriptions ::
  "env \<Rightarrow> celix_earpm_client \<Rightarrow> celix_earpm_client" where
  "celix_earpmc_refreshSubscriptions E c = refreshSubscriptions_loop E (subscriptions c) c"

subsection \<open>Admission and the publish pipeline\<close>

fun celix_earpmc_hasFreeMsgFor ::
  "celix_earpm_client \<Rightarrow> celix_earpmc_message_priority_e \<Rightarrow> bool" where
  "celix_earpmc_hasFreeMsgFor c CELIX_EARPMC_MSG_PRI_LOW =
     (usedSize (freeMsgPool c) < cap (freeMsgPool c) * 70 div 100)"
| "celix_earpmc_hasFreeMsgFor c CELIX_EARPMC_MSG_PRI_MIDDLE =
     (usedSize (freeMsgPool c) < cap (freeMsgPool c) * 85 div 100)"
| "celix_earpmc_hasFreeMsgFor c CELIX_EARPMC_MSG_PRI_HIGH =
     (usedSize (freeMsgPool c) < cap (freeMsgPool c))"

definition celix_earpmc_isPublishingQueueFull :: "celix_earpm_client \<Rightarrow> bool" where
  "celix_earpmc_isPublishingQueueFull c =
     (word_of_nat (length (publishingMessages c)) \<ge> parallelMsgCap c)"

text \<open>
  \<^verbatim>\<open>celix_earpmc_messageCreate\<close>: a block is taken from the pool and initialised; the
  sequence number comes from the static counter (a \<^verbatim>\<open>long\<close>, far from wrapping). The
  topic is duplicated last; when that allocation fails the block goes back to the pool.
\<close>

definition celix_earpmc_messageCreate ::
  "env \<Rightarrow> celix_earpm_client \<Rightarrow> string \<Rightarrow> celix_earpm_qos_e \<Rightarrow> celix_earpmc_message_priority_e \<Rightarrow>
     bool \<Rightarrow> nat option \<times> celix_earpm_client" where
  "celix_earpmc_messageCreate E c t q pr sy =
     (case celix_earpmc_msgPoolAlloc (freeMsgPool c) of
        (None, pool) \<Rightarrow> (None, c)
      | (Some p, pool) \<Rightarrow>
          let c1 = upd_msg p
                     (\<lambda>m. m\<lparr>ref := 1, payloadSize := 0, qos := q, pri := pr, sync := sy,
                             seqNr := nextSeqNr c, error := CELIX_SUCCESS, mqttMid := - 1,
                             payload := None, mqttProps := None\<rparr>)
                     (c\<lparr>freeMsgPool := pool\<rparr>);
              c2 = c1\<lparr>nextSeqNr := nextSeqNr c + 1, allocs := Suc (allocs c)\<rparr>
          in if mem_ok E (allocs c) then (Some p, upd_msg p (\<lambda>m. m\<lparr>topic := t\<rparr>) c2)
             else (None, (upd_msg p (\<lambda>m. m\<lparr>topic := []\<rparr>) c2)
                           \<lparr>freeMsgPool :=
                              celix_earpmc_msgPoolFree
                                (freeMsgPool (upd_msg p (\<lambda>m. m\<lparr>topic := []\<rparr>) c2)) p\<rparr>))"

text \<open>
  \<^verbatim>\<open>celix_earpmc_fillMessagePayload\<close>. The caller's buffer \<open>pl\<close> holds at least
  \<open>plSize\<close> bytes; \<^verbatim>\<open>memcpy\<close> copies the first \<open>plSize\<close> of them. The test that guards the
  copy reads the \<^verbatim>\<open>payloadSize\<close> field of the message, as the source does.
\<close>

definition celix_earpmc_fillMessagePayload ::
  "env \<Rightarrow> celix_earpm_client \<Rightarrow> nat \<Rightarrow> string option \<Rightarrow> nat \<Rightarrow> mosquitto_property option \<Rightarrow>
     celix_status_t \<times> celix_earpm_client" where
  "celix_earpmc_fillMessagePayload E c p pl plSize props =
     (let copying = (payloadSize (msg_at c p) > 0 \<and> pl \<noteq> None)
      in if copying \<and> \<not> mem_ok E (allocs c) then (ENOMEM, c\<lparr>allocs := Suc (allocs c)\<rparr>)
         else
           let c1 = (if copying then c\<lparr>allocs := Suc (allocs c)\<rparr> else c);
               buf = (if copying then map_option (take plSize) pl else None)
           in if props \<noteq> None \<and> \<not> mem_ok E (allocs c1)
              then (ENOMEM, c1\<lparr>allocs := Suc (allocs c1)\<rparr>)
              else
                let c2 = (if props \<noteq> None
                          then upd_msg p (\<lambda>m. m\<lparr>mqttProps := props\<rparr>)
                                 (c1\<lparr>allocs := Suc (allocs c1)\<rparr>)
                          else c1);
                    c3 = (if buf \<noteq> None
                          then upd_msg p (\<lambda>m. m\<lparr>payload := buf, payloadSize := plSize\<rparr>) c2
                          else c2)
                in (CELIX_SUCCESS, c3))"

text \<open>
  \<^verbatim>\<open>celix_earpmc_publishMessage\<close>. The length is passed as \<^verbatim>\<open>(int)payloadSize\<close>, a
  32-bit signed value.
\<close>

definition celix_earpmc_publishMessage ::
  "env \<Rightarrow> celix_earpm_client \<Rightarrow> nat \<Rightarrow> string option \<Rightarrow> nat \<Rightarrow> mosquitto_property option \<Rightarrow>
     celix_status_t \<times> celix_earpm_client" where
  "celix_earpmc_publishMessage E c p pl plSize props =
     (let ((rc, mid), c1) =
            mosquitto_publish_v5 E c (topic (msg_at c p)) (sint (word_of_nat plSize :: 32 word))
              pl (qos (msg_at c p)) props
      in if rc \<noteq> MOSQ_ERR_SUCCESS then (CELIX_BUNDLE_EXCEPTION, c1)
         else
           let c2 = upd_msg p (\<lambda>m. m\<lparr>mqttMid := mid\<rparr>) c1;
               (status, c3) = publishingMessages_put E c2 mid p
           in if status \<noteq> CELIX_SUCCESS then (status, c3)
              else (CELIX_SUCCESS, celix_earpmc_messageRetain c3 p))"

text \<open>
  \<^verbatim>\<open>celix_earpmc_enqueueMsgToWaitingQueue\<close> scans the queue from its tail for the first
  message whose priority is at least the new one's and inserts after it, or at the head when
  there is none. \<open>insertFromTail\<close> is that scan on the queue read from the tail.
\<close>

fun insertFromTail :: "(nat \<Rightarrow> celix_earpmc_msg) \<Rightarrow> nat \<Rightarrow> nat list \<Rightarrow> nat list" where
  "insertFromTail blocks p [] = [p]"
| "insertFromTail blocks p (x # xs) =
     (if pri_rank (pri (blocks x)) \<ge> pri_rank (pri (blocks p)) then p # x # xs
      else x # insertFromTail blocks p xs)"

definition celix_earpmc_enqueueMsgToWaitingQueue ::
  "celix_earpm_client \<Rightarrow> nat \<Rightarrow> celix_earpm_client" where
  "celix_earpmc_enqueueMsgToWaitingQueue c p =
     celix_earpmc_messageRetain
       (c\<lparr>waitingMessages :=
            rev (insertFromTail (msg_at c) p (rev (waitingMessages c)))\<rparr>) p"

definition celix_earpmc_publishDoNext ::
  "env \<Rightarrow> celix_earpm_client \<Rightarrow> nat \<Rightarrow> string option \<Rightarrow> nat \<Rightarrow> mosquitto_property option \<Rightarrow>
     celix_status_t \<times> celix_earpm_client" where
  "celix_earpmc_publishDoNext E c p pl plSize props =
     (if connected c \<and> \<not> celix_earpmc_isPublishingQueueFull c then
        (let (status, c1) = celix_earpmc_publishMessage E c p pl plSize props
         in if status \<noteq> CELIX_SUCCESS then (status, c1) else (CELIX_SUCCESS, c1))
      else
        (let (status, c1) = celix_earpmc_fillMessagePayload E c p pl plSize props
         in if status \<noteq> CELIX_SUCCESS then (status, c1)
            else (CELIX_SUCCESS, celix_earpmc_enqueueMsgToWaitingQueue c1 p)))"

text \<open>
  \<^verbatim>\<open>celix_earpmc_publishAsync\<close>. The message is held by a \<^verbatim>\<open>celix_autoptr\<close>, so the
  creator's reference is released on every return after the creation.
\<close>

definition celix_earpmc_publishAsync ::
  "env \<Rightarrow> celix_earpm_client \<Rightarrow> string \<Rightarrow> string option \<Rightarrow> nat \<Rightarrow> celix_earpm_qos_e \<Rightarrow>
     mosquitto_property option \<Rightarrow> celix_earpmc_message_priority_e \<Rightarrow>
     celix_status_t \<times> celix_earpm_client" where
  "celix_earpmc_publishAsync E c t pl plSize q props pr =
     (if q \<le> CELIX_EARPM_QOS_AT_MOST_ONCE \<and> \<not> connected c then (ENOTCONN, c)
      else if \<not> celix_earpmc_hasFreeMsgFor c pr then (ENOMEM, c)
      else
        (case celix_earpmc_messageCreate E c t q pr False of
           (None, c1) \<Rightarrow> (ENOMEM, c1)
         | (Some p, c1) \<Rightarrow>
             (let (status, c2) = celix_earpmc_publishDoNext E c1 p pl plSize props
              in (status, celix_earpmc_messageRelease c2 p))))"

subsection \<open>Completion, draining and the callbacks\<close>

definition celix_earpmc_enqueueMsgToPublishedQueue ::
  "env \<Rightarrow> celix_earpm_client \<Rightarrow> nat \<Rightarrow> celix_status_t \<Rightarrow> celix_earpm_client" where
  "celix_earpmc_enqueueMsgToPublishedQueue E c p err =
     (if sync (msg_at c p) = False then c
      else
        let c1 = upd_msg p (\<lambda>m. m\<lparr>error := err\<rparr>) c;
            (status, c2) = publishedMessages_put E c1 (seqNr (msg_at c1 p)) p
        in if status \<noteq> CELIX_SUCCESS then c2 else celix_earpmc_messageRetain c2 p)"

text \<open>
  \<^verbatim>\<open>celix_earpmc_releaseWaitingMsgToPublishing\<close>: the loop follows the queue from its
  head, reading the successor before the current message is unlinked, and stops when the
  publishing map is full. \<open>releaseWaiting_body\<close> is the body of the loop.
\<close>

definition releaseWaiting_body ::
  "env \<Rightarrow> celix_earpm_client \<Rightarrow> nat \<Rightarrow> celix_earpm_client" where
  "releaseWaiting_body E c cur =
     (let (status, c1) =
            celix_earpmc_publishMessage E c cur (payload (msg_at c cur))
              (payloadSize (msg_at c cur)) (mqttProps (msg_at c cur));
          c2 = (if status \<noteq> CELIX_SUCCESS
                then celix_earpmc_enqueueMsgToPublishedQueue E c1 cur status else c1);
          c3 = c2\<lparr>waitingMessages := remove1 cur (waitingMessages c2)\<rparr>
      in celix_earpmc_messageRelease c3 cur)"

fun releaseWaiting_loop ::
  "env \<Rightarrow> nat list \<Rightarrow> celix_earpm_client \<Rightarrow> celix_earpm_client" where
  "releaseWaiting_loop E [] c = c"
| "releaseWaiting_loop E (cur # rest) c =
     (if celix_earpmc_isPublishingQueueFull c then c
      else releaseWaiting_loop E rest (releaseWaiting_body E c cur))"

definition celix_earpmc_releaseWaitingMsgToPublishing ::
  "env \<Rightarrow> celix_earpm_client \<Rightarrow> celix_earpm_client" where
  "celix_earpmc_releaseWaitingMsgToPublishing E c = releaseWaiting_loop E (waitingMessages c) c"

definition celix_earpmc_connectCallback ::
  "env \<Rightarrow> celix_earpm_client \<Rightarrow> int \<Rightarrow> celix_earpm_client" where
  "celix_earpmc_connectCallback E c rc =
     (if rc \<noteq> MQTT_RC_SUCCESS then c
      else celix_earpmc_releaseWaitingMsgToPublishing E
             (celix_earpmc_refreshSubscriptions E (c\<lparr>connected := True\<rparr>)))"

text \<open>
  \<^verbatim>\<open>celix_earpmc_dropQos0Messages\<close>: first the publishing map, entry by entry through an
  iterator, then the waiting queue from its head.
\<close>

fun dropQos0_publishing_loop ::
  "env \<Rightarrow> (int \<times> nat) list \<Rightarrow> celix_earpm_client \<Rightarrow> celix_earpm_client" where
  "dropQos0_publishing_loop E [] c = c"
| "dropQos0_publishing_loop E ((mid, p) # es) c =
     (if qos (msg_at c p) \<le> CELIX_EARPM_QOS_AT_MOST_ONCE
      then dropQos0_publishing_loop E es
             (snd (publishingMessages_remove
                     (celix_earpmc_enqueueMsgToPublishedQueue E c p CELIX_ILLEGAL_STATE) mid))
      else dropQos0_publishing_loop E es c)"

fun dropQos0_waiting_loop ::
  "env \<Rightarrow> nat list \<Rightarrow> celix_earpm_client \<Rightarrow> celix_earpm_client" where
  "dropQos0_waiting_loop E [] c = c"
| "dropQos0_waiting_loop E (cur # rest) c =
     (if qos (msg_at c cur) \<le> CELIX_EARPM_QOS_AT_MOST_ONCE
      then
        (let c1 = celix_earpmc_enqueueMsgToPublishedQueue E c cur CELIX_ILLEGAL_STATE;
             c2 = c1\<lparr>waitingMessages := remove1 cur (waitingMessages c1)\<rparr>
         in dropQos0_waiting_loop E rest (celix_earpmc_messageRelease c2 cur))
      else dropQos0_waiting_loop E rest c)"

definition celix_earpmc_dropQos0Messages ::
  "env \<Rightarrow> celix_earpm_client \<Rightarrow> celix_earpm_client" where
  "celix_earpmc_dropQos0Messages E c =
     (let c1 = dropQos0_publishing_loop E (publishingMessages c) c
      in dropQos0_waiting_loop E (waitingMessages c1) c1)"

definition celix_earpmc_disconnectCallback ::
  "env \<Rightarrow> celix_earpm_client \<Rightarrow> celix_earpm_client" where
  "celix_earpmc_disconnectCallback E c =
     celix_earpmc_dropQos0Messages E (c\<lparr>connected := False\<rparr>)"

text \<open>
  \<^verbatim>\<open>celix_earpmc_publishCallback\<close>; \<open>ok\<close> says that the reason code is success or
  \<^verbatim>\<open>MQTT_RC_NO_MATCHING_SUBSCRIBERS\<close>.
\<close>

definition celix_earpmc_publishCallback ::
  "env \<Rightarrow> celix_earpm_client \<Rightarrow> int \<Rightarrow> bool \<Rightarrow> celix_earpm_client" where
  "celix_earpmc_publishCallback E c mid ok =
     (let c1 = (case map_of (publishingMessages c) mid of
                  None \<Rightarrow> c
                | Some p \<Rightarrow>
                    snd (publishingMessages_remove
                           (celix_earpmc_enqueueMsgToPublishedQueue E c p
                              (if ok then CELIX_SUCCESS else CELIX_ILLEGAL_STATE)) mid))
      in celix_earpmc_releaseWaitingMsgToPublishing E c1)"

subsection \<open>Synchronous publishing\<close>

text \<open>
  A call that waits on the condition \<^verbatim>\<open>msgStatusChanged\<close> gives up the mutex. A wake-up
  is the status the wait returns together with what the other threads did to the client in
  the meantime. A run is given the wake-ups it will see; it is \<open>Blocked\<close> when it waits and
  none is left. \<^verbatim>\<open>TAILQ_REMOVE\<close> of a message that is not in the queue has no defined
  behaviour, which is the outcome \<open>Undefined\<close>.
\<close>

type_synonym wakeup = "celix_status_t \<times> (celix_earpm_client \<Rightarrow> celix_earpm_client)"

datatype 'a run = Returns 'a | Blocked | Undefined

definition celix_earpmc_isMsgPublished :: "celix_earpm_client \<Rightarrow> nat \<Rightarrow> bool" where
  "celix_earpmc_isMsgPublished c p =
     (map_of (publishedMessages c) (seqNr (msg_at c p)) \<noteq> None)"

definition celix_earpmc_deleteMsgFromQueue ::
  "celix_earpm_client \<Rightarrow> nat \<Rightarrow> celix_earpm_client option" where
  "celix_earpmc_deleteMsgFromQueue c p =
     (let (removed, c1) = publishedMessages_remove c (mqttMid (msg_at c p));
          (removed, c2) = (if \<not> removed then publishingMessages_remove c1 (mqttMid (msg_at c1 p))
                           else (removed, c1))
      in if \<not> removed then
           (if p \<in> set (waitingMessages c2)
            then Some (celix_earpmc_messageRelease
                         (c2\<lparr>waitingMessages := remove1 p (waitingMessages c2)\<rparr>) p)
            else None)
         else Some c2)"

fun celix_earpmc_waitForMsgPublished ::
  "celix_earpm_client \<Rightarrow> nat \<Rightarrow> wakeup list \<Rightarrow> (celix_status_t \<times> celix_earpm_client) run" where
  "celix_earpmc_waitForMsgPublished c p [] =
     (if celix_earpmc_isMsgPublished c p
      then Returns (error (msg_at c p), snd (publishedMessages_remove c (seqNr (msg_at c p))))
      else Blocked)"
| "celix_earpmc_waitForMsgPublished c p ((status, others) # ws) =
     (if celix_earpmc_isMsgPublished c p
      then Returns (error (msg_at c p), snd (publishedMessages_remove c (seqNr (msg_at c p))))
      else if status \<noteq> CELIX_SUCCESS then
        (case celix_earpmc_deleteMsgFromQueue (others c) p of
           None \<Rightarrow> Undefined
         | Some c1 \<Rightarrow> Returns (status, c1))
      else celix_earpmc_waitForMsgPublished (others c) p ws)"

text \<open>
  The admission loop of \<^verbatim>\<open>celix_earpmc_publishSync\<close>: \<open>Inl\<close> is the status of an early
  return, \<open>Inr\<close> the wake-ups that are left when a LOW message can be admitted.
\<close>

fun publishSync_admit ::
  "celix_earpm_client \<Rightarrow> celix_earpm_qos_e \<Rightarrow> wakeup list \<Rightarrow>
     ((celix_status_t + wakeup list) \<times> celix_earpm_client) run" where
  "publishSync_admit c q [] =
     (if celix_earpmc_hasFreeMsgFor c CELIX_EARPMC_MSG_PRI_LOW then Returns (Inr [], c)
      else if q \<le> CELIX_EARPM_QOS_AT_MOST_ONCE then Returns (Inl ENOMEM, c)
      else Blocked)"
| "publishSync_admit c q ((status, others) # ws) =
     (if celix_earpmc_hasFreeMsgFor c CELIX_EARPMC_MSG_PRI_LOW
      then Returns (Inr ((status, others) # ws), c)
      else if q \<le> CELIX_EARPM_QOS_AT_MOST_ONCE then Returns (Inl ENOMEM, c)
      else if status \<noteq> CELIX_SUCCESS then Returns (Inl status, others c)
      else publishSync_admit (others c) q ws)"

text \<open>
  \<^verbatim>\<open>celix_earpmc_publishSync\<close>. As in the asynchronous call the creator's reference is
  released on every return after the creation.
\<close>

definition celix_earpmc_publishSync ::
  "env \<Rightarrow> celix_earpm_client \<Rightarrow> string \<Rightarrow> string option \<Rightarrow> nat \<Rightarrow> celix_earpm_qos_e \<Rightarrow>
     mosquitto_property option \<Rightarrow> wakeup list \<Rightarrow> (celix_status_t \<times> celix_earpm_client) run" where
  "celix_earpmc_publishSync E c t pl plSize q props ws =
     (if q \<le> CELIX_EARPM_QOS_AT_MOST_ONCE \<and> \<not> connected c then Returns (ENOTCONN, c)
      else
        (case publishSync_admit c q ws of
           Blocked \<Rightarrow> Blocked
         | Undefined \<Rightarrow> Undefined
         | Returns (Inl status, c0) \<Rightarrow> Returns (status, c0)
         | Returns (Inr ws1, c0) \<Rightarrow>
             (case celix_earpmc_messageCreate E c0 t q CELIX_EARPMC_MSG_PRI_LOW True of
                (None, c1) \<Rightarrow> Returns (ENOMEM, c1)
              | (Some p, c1) \<Rightarrow>
                  (let (status, c2) = celix_earpmc_publishDoNext E c1 p pl plSize props
                   in if status \<noteq> CELIX_SUCCESS
                      then Returns (status, celix_earpmc_messageRelease c2 p)
                      else
                        (case celix_earpmc_waitForMsgPublished c2 p ws1 of
                           Blocked \<Rightarrow> Blocked
                         | Undefined \<Rightarrow> Undefined
                         | Returns (st, c3) \<Rightarrow>
                             Returns (st, celix_earpmc_messageRelease c3 p))))))"

subsection \<open>Notions used to state the claims\<close>

text \<open>
  The rank of the priority class of a message, and the call that publishes a message with
  the payload and the properties stored in it.
\<close>

definition msg_rank :: "celix_earpm_client \<Rightarrow> nat \<Rightarrow> nat" where
  "msg_rank c p = pri_rank (pri (msg_at c p))"

definition publish_call_of :: "celix_earpm_client \<Rightarrow> nat \<Rightarrow> mosq_call" where
  "publish_call_of c p =
     Publish (topic (msg_at c p)) (sint (word_of_nat (payloadSize (msg_at c p)) :: 32 word))
       (payload (msg_at c p)) (qos (msg_at c p)) (mqttProps (msg_at c p))"

text \<open>
  A message that the disconnect callback drops (the test of \<^verbatim>\<open>celix_earpmc_dropQos0Messages\<close>),
  and the state of the publishing map and the waiting queue between two operations: the keys
  of the map are distinct, no message is held twice, the messages have sequence numbers of
  their own, and none of them is in the published map yet.
\<close>

definition is_qos0 :: "celix_earpm_client \<Rightarrow> nat \<Rightarrow> bool" where
  "is_qos0 c p = (qos (msg_at c p) \<le> CELIX_EARPM_QOS_AT_MOST_ONCE)"

definition queues_hold_each_message_once :: "celix_earpm_client \<Rightarrow> bool" where
  "queues_hold_each_message_once c \<longleftrightarrow>
     distinct (map fst (publishingMessages c))
     \<and> distinct (map snd (publishingMessages c) @ waitingMessages c)
     \<and> distinct (map (\<lambda>p. seqNr (msg_at c p))
                   (map snd (publishingMessages c) @ waitingMessages c))
     \<and> list_all (\<lambda>p. map_of (publishedMessages c) (seqNr (msg_at c p)) = None)
          (map snd (publishingMessages c) @ waitingMessages c)"

text \<open>The entries that dropping the messages \<open>ps\<close> adds to the published map.\<close>

definition recorded :: "celix_earpm_client \<Rightarrow> nat list \<Rightarrow> (int \<times> nat) list" where
  "recorded c ps =
     map (\<lambda>p. (seqNr (msg_at c p), p)) (filter (\<lambda>p. is_qos0 c p \<and> sync (msg_at c p)) ps)"

subsection \<open>Environments and clients of the concrete runs\<close>

text \<open>
  An environment in which every call succeeds (the n-th call on the handle gets the message
  id n + 1), and one in which the broker operations fail.
\<close>

definition env_ok :: env where
  "env_ok = \<lparr>wire_rc = (\<lambda>_. 0), wire_mid = (\<lambda>n. int n + 1), mem_ok = (\<lambda>_. True)\<rparr>"

definition env_wire_fails :: env where
  "env_wire_fails = \<lparr>wire_rc = (\<lambda>_. 4), wire_mid = (\<lambda>n. int n + 1), mem_ok = (\<lambda>_. True)\<rparr>"

text \<open>A connected client that holds the subscription of topic \<^verbatim>\<open>a\<close> with QoS 1.\<close>

definition client_subscribed :: celix_earpm_client where
  "client_subscribed =
     snd (celix_earpmc_subscribe env_ok
            (celix_earpmc_connectCallback env_ok (new_client 10 5) 0) ''a'' 1)"

text \<open>
  A disconnected client of capacity 100 in which 70 blocks are in use: the state after 70
  messages have been queued.
\<close>

definition client_70_of_100 :: celix_earpm_client where
  "client_70_of_100 =
     (new_client 100 100)\<lparr>freeMsgPool :=
        (celix_earpmc_msgPoolInit 100)\<lparr>usedSize := 70, freeMsgList := [70 ..< 100]\<rparr>\<rparr>"

text \<open>A client right after its first successful connect callback.\<close>

definition client_connected :: celix_earpm_client where
  "client_connected = celix_earpmc_connectCallback env_ok (new_client 10 5) MQTT_RC_SUCCESS"

text \<open>
  A disconnected client after an asynchronous publish of the five bytes \<^verbatim>\<open>hello\<close> with
  QoS 1: the message is in the waiting queue.
\<close>

definition client_queued_hello :: celix_earpm_client where
  "client_queued_hello =
     snd (celix_earpmc_publishAsync env_ok (new_client 10 5) ''t'' (Some ''hello'') 5
            CELIX_EARPM_QOS_AT_LEAST_ONCE None CELIX_EARPMC_MSG_PRI_LOW)"

text \<open>
  What other threads may do while a synchronous publisher waits: the acknowledgement of the
  packet with message id 1 arrives; or another thread publishes synchronously on topic
  \<^verbatim>\<open>u\<close>, its packet gets the message id 2 and is acknowledged.
\<close>

definition ack_arrives :: "celix_earpm_client \<Rightarrow> celix_earpm_client" where
  "ack_arrives c = celix_earpmc_publishCallback env_ok c 1 True"

definition other_sync_publish_completes :: "celix_earpm_client \<Rightarrow> celix_earpm_client" where
  "other_sync_publish_completes c =
     (case celix_earpmc_messageCreate env_ok c ''u'' CELIX_EARPM_QOS_AT_LEAST_ONCE
             CELIX_EARPMC_MSG_PRI_LOW True of
        (None, c1) \<Rightarrow> c1
      | (Some p, c1) \<Rightarrow>
          celix_earpmc_publishCallback env_ok
            (snd (celix_earpmc_publishDoNext env_ok c1 p None 0 None)) 2 True)"

text \<open>
  A disconnected client after the asynchronous publishes of A (LOW), B (HIGH) and C (LOW), in
  that order, each with QoS 1.
\<close>

definition client_abc :: celix_earpm_client where
  "client_abc =
     snd (celix_earpmc_publishAsync env_ok
       (snd (celix_earpmc_publishAsync env_ok
         (snd (celix_earpmc_publishAsync env_ok (new_client 10 5)
                 ''A'' None 0 CELIX_EARPM_QOS_AT_LEAST_ONCE None CELIX_EARPMC_MSG_PRI_LOW))
           ''B'' None 0 CELIX_EARPM_QOS_AT_LEAST_ONCE None CELIX_EARPMC_MSG_PRI_HIGH))
       ''C'' None 0 CELIX_EARPM_QOS_AT_LEAST_ONCE None CELIX_EARPMC_MSG_PRI_LOW)"

text \<open>
  The part of \<^verbatim>\<open>celix_earpmc_publishSync\<close> before the wait, for a message without payload:
  the message is created with the synchronous flag and handed to the pipeline; the caller
  keeps its reference while it waits.
\<close>

definition sync_publish_started ::
  "celix_earpm_client \<Rightarrow> string \<Rightarrow> celix_earpm_qos_e \<Rightarrow> celix_earpm_client" where
  "sync_publish_started c t q =
     (case celix_earpmc_messageCreate env_ok c t q CELIX_EARPMC_MSG_PRI_LOW True of
        (None, c1) \<Rightarrow> c1
      | (Some p, c1) \<Rightarrow> snd (celix_earpmc_publishDoNext env_ok c1 p None 0 None))"

text \<open>
  A connected client with room for two packets in flight: a synchronous publish with QoS 0
  (\<^verbatim>\<open>s\<close>) and an asynchronous one with QoS 1 (\<^verbatim>\<open>r\<close>) are in the publishing map, the
  asynchronous publishes \<^verbatim>\<open>a\<close> (QoS 0) and \<^verbatim>\<open>b\<close> (QoS 2) are in the waiting queue.
\<close>

definition client_in_flight :: celix_earpm_client where
  "client_in_flight =
     snd (celix_earpmc_publishAsync env_ok
       (snd (celix_earpmc_publishAsync env_ok
         (snd (celix_earpmc_publishAsync env_ok
           (sync_publish_started
              (celix_earpmc_connectCallback env_ok (new_client 10 2) MQTT_RC_SUCCESS)
              ''s'' CELIX_EARPM_QOS_AT_MOST_ONCE)
           ''r'' None 0 CELIX_EARPM_QOS_AT_LEAST_ONCE None CELIX_EARPMC_MSG_PRI_LOW))
         ''a'' None 0 CELIX_EARPM_QOS_AT_MOST_ONCE None CELIX_EARPMC_MSG_PRI_LOW))
       ''b'' None 0 CELIX_EARPM_QOS_EXACTLY_ONCE None CELIX_EARPMC_MSG_PRI_LOW)"

text \<open>A connected client after the subscription of the pattern \<^verbatim>\<open>a/*\<close> with QoS 1.\<close>

definition client_wildcard :: celix_earpm_client where
  "client_wildcard = snd (celix_earpmc_subscribe env_ok client_connected ''a/*'' 1)"

text \<open>
  The environment of \<open>client_in_flight\<close> when memory runs out afterwards: the six
  allocations made so far succeed, every later one fails.
\<close>

definition env_memory_exhausted :: env where
  "env_memory_exhausted =
     \<lparr>wire_rc = (\<lambda>_. 0), wire_mid = (\<lambda>n. int n + 1), mem_ok = (\<lambda>n. n < 6)\<rparr>"

section \<open>Properties\<close>

subsection \<open>Association lists\<close>

lemma delete_append_fresh: "k \<notin> fst ` set al \<Longrightarrow> AList.delete k (al @ [(k, v)]) = al"
  by (induction al) auto

lemma map_of_snoc:
  "map_of (al @ [(k, v)]) k' =
     (case map_of al k' of Some x \<Rightarrow> Some x | None \<Rightarrow> if k' = k then Some v else None)"
  by (induction al) (auto split: option.splits)

lemma update_snoc_same:
  "map_of al k = None \<Longrightarrow> AList.update k v (al @ [(k, w)]) = al @ [(k, v)]"
  by (induction al) (auto split: if_splits)

lemma update_key_cases:
  "(a, b) \<in> set (AList.update k v al) \<Longrightarrow> a = k \<or> a \<in> fst ` set al"
  using AList.dom_update [of k v al] by (metis UnE fst_conv image_eqI singletonD)

lemma map_of_None_keys: "map_of al k = None \<Longrightarrow> k \<notin> fst ` set al"
  by (simp add: map_of_eq_None_iff)

lemmas qos_defs = CELIX_EARPM_QOS_UNKNOWN_def CELIX_EARPM_QOS_AT_MOST_ONCE_def
  CELIX_EARPM_QOS_AT_LEAST_ONCE_def CELIX_EARPM_QOS_EXACTLY_ONCE_def MOSQ_ERR_SUCCESS_def
  MQTT_RC_SUCCESS_def

lemmas ledger_defs = celix_earpmc_subscribe_def celix_earpmc_unsubscribe_def
  subscriptions_getLong_def subscriptions_putLong_def subscriptions_remove_def
  mosquitto_subscribe_v5_def mosquitto_unsubscribe_def

subsection \<open>Claims about the subscription ledger\<close>

text \<open>
  C4, as the code has it. A connected subscribe whose ledger insertion succeeded and whose
  broker call fails returns the bundle exception and leaves the ledger exactly as it was,
  provided the entry of the topic was absent or held a meaningful QoS. A connected
  unsubscribe whose broker call fails returns the bundle exception and leaves the entry
  removed: it has no rollback.
\<close>

theorem failed_connected_subscribe_restores_ledger:
  assumes "celix_earpmc_validateTopic t" and "connected c"
    and "wire_rc E (length (mosq c)) \<noteq> MOSQ_ERR_SUCCESS"
  shows "(map_of (subscriptions c) (mqttTopic t) \<noteq> Some CELIX_EARPM_QOS_UNKNOWN
          \<and> (map_of (subscriptions c) (mqttTopic t) \<noteq> None \<or> mem_ok E (allocs c))
          \<longrightarrow> fst (celix_earpmc_subscribe E c t q) = CELIX_BUNDLE_EXCEPTION
              \<and> subscriptions (snd (celix_earpmc_subscribe E c t q)) = subscriptions c)
       \<and> fst (celix_earpmc_unsubscribe E c t) = CELIX_BUNDLE_EXCEPTION
       \<and> subscriptions (snd (celix_earpmc_unsubscribe E c t))
           = AList.delete (mqttTopic t) (subscriptions c)"
  using assms
  by (auto simp: ledger_defs Let_def delete_append_fresh map_of_None_keys AList.update_triv
        AList.update_conv' map_of_snoc split: option.splits)

theorem failed_connected_subscribe_restores_ledger_witness:
  "celix_earpmc_validateTopic ''a'' \<and> connected client_subscribed
   \<and> wire_rc env_wire_fails (length (mosq client_subscribed)) \<noteq> MOSQ_ERR_SUCCESS
   \<and> map_of (subscriptions client_subscribed) (mqttTopic ''a'') = Some 1
   \<and> fst (celix_earpmc_subscribe env_wire_fails client_subscribed ''a'' 2) = CELIX_BUNDLE_EXCEPTION
   \<and> subscriptions (snd (celix_earpmc_subscribe env_wire_fails client_subscribed ''a'' 2))
       = subscriptions client_subscribed
   \<and> fst (celix_earpmc_unsubscribe env_wire_fails client_subscribed ''a'') = CELIX_BUNDLE_EXCEPTION
   \<and> subscriptions (snd (celix_earpmc_unsubscribe env_wire_fails client_subscribed ''a''))
       = AList.delete (mqttTopic ''a'') (subscriptions client_subscribed)"
proof -
  have h1: "celix_earpmc_validateTopic ''a''" by code_simp
  have h2: "connected client_subscribed" by code_simp
  have h3: "wire_rc env_wire_fails (length (mosq client_subscribed)) \<noteq> MOSQ_ERR_SUCCESS"
    by code_simp
  have h4: "map_of (subscriptions client_subscribed) (mqttTopic ''a'') = Some 1" by code_simp
  have h5: "(1::int) \<noteq> CELIX_EARPM_QOS_UNKNOWN" by code_simp
  show ?thesis
    using failed_connected_subscribe_restores_ledger [OF h1 h2 h3, of 2] h1 h2 h3 h4 h5 by simp
qed

text \<open>
  C4 as stated fails for unsubscribe: the connected client holds topic \<^verbatim>\<open>a\<close> with QoS 1,
  the broker call of the unsubscribe fails, and the entry is gone afterwards.
\<close>

theorem failed_connected_unsubscribe_counterexample:
  "connected client_subscribed
   \<and> subscriptions client_subscribed = [(''a'', 1)]
   \<and> wire_rc env_wire_fails (length (mosq client_subscribed)) \<noteq> MOSQ_ERR_SUCCESS
   \<and> fst (celix_earpmc_unsubscribe env_wire_fails client_subscribed ''a'') = CELIX_BUNDLE_EXCEPTION
   \<and> subscriptions (snd (celix_earpmc_unsubscribe env_wire_fails client_subscribed ''a'')) = []
   \<and> subscriptions (snd (celix_earpmc_unsubscribe env_wire_fails client_subscribed ''a''))
       \<noteq> subscriptions client_subscribed"
  by code_simp

text \<open>
  C3, as the code has it. A valid pattern that ends in \<^verbatim>\<open>*\<close> is translated before the
  ledger is touched, and everything subscribe and unsubscribe do, they do under the translated
  key, which differs from the pattern. No other key of the ledger changes, so no entry is
  created under the \<^verbatim>\<open>*\<close> form. A successful subscribe stores the QoS under the translated
  key; a connected subscribe calls the broker with the translated topic unless the insertion
  into the ledger fails for lack of memory, and when that call fails the value restored is
  the one that was read under the translated key. A connected unsubscribe removes the entry of
  the translated key and calls the broker with the translated topic; a disconnected one makes
  no call and marks the translated key with the sentinel.
\<close>

theorem wildcard_translated_for_ledger_and_wire:
  assumes "celix_earpmc_validateTopic t" and "last t = CHR ''*''"
  shows "butlast t @ ''#'' \<noteq> t
    \<and> (\<forall>k. k \<noteq> butlast t @ ''#'' \<longrightarrow>
          map_of (subscriptions (snd (celix_earpmc_subscribe E c t q))) k = map_of (subscriptions c) k
          \<and> map_of (subscriptions (snd (celix_earpmc_unsubscribe E c t))) k = map_of (subscriptions c) k)
    \<and> (fst (celix_earpmc_subscribe E c t q) = CELIX_SUCCESS \<longrightarrow>
          map_of (subscriptions (snd (celix_earpmc_subscribe E c t q))) (butlast t @ ''#'') = Some q)
    \<and> mosq (snd (celix_earpmc_subscribe E c t q))
        = (if connected c \<and> fst (celix_earpmc_subscribe E c t q) \<noteq> ENOMEM
           then mosq c @ [Subscribe (butlast t @ ''#'') q] else mosq c)
    \<and> (fst (celix_earpmc_subscribe E c t q) = CELIX_BUNDLE_EXCEPTION \<longrightarrow>
          map_of (subscriptions (snd (celix_earpmc_subscribe E c t q))) (butlast t @ ''#'')
            = (case map_of (subscriptions c) (butlast t @ ''#'') of
                 None \<Rightarrow> None
               | Some v \<Rightarrow> if v = CELIX_EARPM_QOS_UNKNOWN then None else Some v))
    \<and> (connected c \<longrightarrow>
          map_of (subscriptions (snd (celix_earpmc_unsubscribe E c t))) (butlast t @ ''#'') = None
          \<and> mosq (snd (celix_earpmc_unsubscribe E c t)) = mosq c @ [Unsubscribe (butlast t @ ''#'')])
    \<and> (\<not> connected c \<longrightarrow>
          mosq (snd (celix_earpmc_unsubscribe E c t)) = mosq c
          \<and> (fst (celix_earpmc_unsubscribe E c t) = CELIX_SUCCESS \<longrightarrow>
                map_of (subscriptions (snd (celix_earpmc_unsubscribe E c t))) (butlast t @ ''#'')
                  = Some CELIX_EARPM_QOS_UNKNOWN))"
proof -
  let ?t = "butlast t @ ''#''"
  have mt: "mqttTopic t = ?t" using assms(2) by (simp add: mqttTopic_def)
  have "last ?t \<noteq> last t" using assms(2) by simp
  then have d: "?t \<noteq> t" by metis
  have s1: "map_of (subscriptions (snd (celix_earpmc_subscribe E c t q))) k = map_of (subscriptions c) k"
    if "k \<noteq> ?t" for k
    using assms that
    by (auto simp: ledger_defs mt Let_def AList.update_conv' AList.delete_conv' map_add_def
          split: option.splits)
  have u1: "map_of (subscriptions (snd (celix_earpmc_unsubscribe E c t))) k = map_of (subscriptions c) k"
    if "k \<noteq> ?t" for k
    using assms that
    by (auto simp: ledger_defs mt Let_def AList.update_conv' AList.delete_conv' map_add_def
          split: option.splits)
  have s2: "fst (celix_earpmc_subscribe E c t q) = CELIX_SUCCESS \<longrightarrow>
          map_of (subscriptions (snd (celix_earpmc_subscribe E c t q))) ?t = Some q"
    using assms
    by (auto simp: ledger_defs mt Let_def AList.update_conv' AList.delete_conv' map_add_def
          split: option.splits if_splits)
  have s3: "mosq (snd (celix_earpmc_subscribe E c t q))
        = (if connected c \<and> fst (celix_earpmc_subscribe E c t q) \<noteq> ENOMEM
           then mosq c @ [Subscribe ?t q] else mosq c)"
    using assms
    by (auto simp: ledger_defs mt Let_def split: option.splits if_splits)
  have s4: "fst (celix_earpmc_subscribe E c t q) = CELIX_BUNDLE_EXCEPTION \<longrightarrow>
          map_of (subscriptions (snd (celix_earpmc_subscribe E c t q))) ?t
            = (case map_of (subscriptions c) ?t of
                 None \<Rightarrow> None
               | Some v \<Rightarrow> if v = CELIX_EARPM_QOS_UNKNOWN then None else Some v)"
    using assms
    by (auto simp: ledger_defs mt Let_def AList.update_conv' AList.delete_conv' map_add_def
          split: option.splits if_splits)
  have u2: "connected c \<longrightarrow>
          map_of (subscriptions (snd (celix_earpmc_unsubscribe E c t))) ?t = None
          \<and> mosq (snd (celix_earpmc_unsubscribe E c t)) = mosq c @ [Unsubscribe ?t]"
    using assms
    by (auto simp: ledger_defs mt Let_def AList.delete_conv' split: option.splits if_splits)
  have u3: "\<not> connected c \<longrightarrow>
          mosq (snd (celix_earpmc_unsubscribe E c t)) = mosq c
          \<and> (fst (celix_earpmc_unsubscribe E c t) = CELIX_SUCCESS \<longrightarrow>
                map_of (subscriptions (snd (celix_earpmc_unsubscribe E c t))) ?t
                  = Some CELIX_EARPM_QOS_UNKNOWN)"
    using assms
    by (auto simp: ledger_defs mt Let_def AList.update_conv' map_add_def
          split: option.splits if_splits)
  from d s1 u1 s2 s3 s4 u2 u3 show ?thesis by blast
qed


theorem wildcard_translated_for_ledger_and_wire_witness:
  "celix_earpmc_validateTopic ''a/*'' \<and> last ''a/*'' = CHR ''*''
   \<and> connected client_connected \<and> subscriptions client_connected = []
   \<and> fst (celix_earpmc_subscribe env_ok client_connected ''a/*'' 1) = CELIX_SUCCESS
   \<and> map_of (subscriptions client_wildcard) ''a/#'' = Some 1
   \<and> map_of (subscriptions client_wildcard) ''a/*'' = None
   \<and> mosq client_wildcard = mosq client_connected @ [Subscribe ''a/#'' 1]
   \<and> connected client_wildcard
   \<and> fst (celix_earpmc_subscribe env_wire_fails client_wildcard ''a/*'' 2) = CELIX_BUNDLE_EXCEPTION
   \<and> map_of (subscriptions (snd (celix_earpmc_subscribe env_wire_fails client_wildcard ''a/*'' 2)))
        ''a/#'' = Some 1
   \<and> mosq (snd (celix_earpmc_subscribe env_wire_fails client_wildcard ''a/*'' 2))
        = mosq client_wildcard @ [Subscribe ''a/#'' 2]
   \<and> map_of (subscriptions (snd (celix_earpmc_unsubscribe env_ok client_wildcard ''a/*''))) ''a/#''
        = None
   \<and> mosq (snd (celix_earpmc_unsubscribe env_ok client_wildcard ''a/*''))
        = mosq client_wildcard @ [Unsubscribe ''a/#'']
   \<and> \<not> connected (new_client 10 5)
   \<and> fst (celix_earpmc_unsubscribe env_ok (new_client 10 5) ''a/*'') = CELIX_SUCCESS
   \<and> map_of (subscriptions (snd (celix_earpmc_unsubscribe env_ok (new_client 10 5) ''a/*'')))
        ''a/#'' = Some CELIX_EARPM_QOS_UNKNOWN
   \<and> mosq (snd (celix_earpmc_unsubscribe env_ok (new_client 10 5) ''a/*'')) = mosq (new_client 10 5)"
proof -
  have h1: "celix_earpmc_validateTopic ''a/*''" by code_simp
  have h2: "last ''a/*'' = CHR ''*''" by simp
  have k: "butlast ''a/*'' @ ''#'' = ''a/#''" by simp
  have c0: "connected client_connected" "subscriptions client_connected = []" by code_simp+
  have s: "fst (celix_earpmc_subscribe env_ok client_connected ''a/*'' 1) = CELIX_SUCCESS"
    by code_simp
  have w: "connected client_wildcard" "map_of (subscriptions client_wildcard) ''a/#'' = Some 1"
    by code_simp+
  have f: "fst (celix_earpmc_subscribe env_wire_fails client_wildcard ''a/*'' 2)
             = CELIX_BUNDLE_EXCEPTION"
    by code_simp
  have n: "\<not> connected (new_client 10 5)"
    "fst (celix_earpmc_unsubscribe env_ok (new_client 10 5) ''a/*'') = CELIX_SUCCESS"
    by code_simp+
  have q: "(1::int) \<noteq> CELIX_EARPM_QOS_UNKNOWN" by code_simp
  show ?thesis
    using wildcard_translated_for_ledger_and_wire [OF h1 h2, of env_ok client_connected 1]
      wildcard_translated_for_ledger_and_wire [OF h1 h2, of env_wire_fails client_wildcard 2]
      wildcard_translated_for_ledger_and_wire [OF h1 h2, of env_ok client_wildcard]
      wildcard_translated_for_ledger_and_wire [OF h1 h2, of env_ok "new_client 10 5"]
      h1 c0 s w f n q
    unfolding k
    by (simp add: client_wildcard_def [symmetric])
qed

text \<open>
  C3 as stated fails: after subscribing the pattern \<^verbatim>\<open>a/*\<close> the ledger holds exactly one
  entry, and its key is the translated form \<^verbatim>\<open>a/#\<close>.
\<close>

theorem ledger_stores_translated_form_counterexample:
  "celix_earpmc_validateTopic ''a/*''
   \<and> fst (celix_earpmc_subscribe env_ok (new_client 10 5) ''a/*'' 1) = CELIX_SUCCESS
   \<and> subscriptions (snd (celix_earpmc_subscribe env_ok (new_client 10 5) ''a/*'' 1)) = [(''a/#'', 1)]"
  by code_simp

text \<open>
  C8, as the code has it, for a valid topic without an entry in the ledger. While connected,
  and when the broker accepts both calls, two unsubscribes in a row succeed and leave the
  ledger as it was. While disconnected, and when the insertion can allocate, both succeed;
  the first adds the entry with the sentinel and the second leaves the ledger as the first
  left it.
\<close>

theorem unsubscribe_twice_without_subscription:
  assumes "celix_earpmc_validateTopic t" and "map_of (subscriptions c) (mqttTopic t) = None"
  shows "(connected c \<and> wire_rc E (length (mosq c)) = MOSQ_ERR_SUCCESS
            \<and> wire_rc E (Suc (length (mosq c))) = MOSQ_ERR_SUCCESS \<longrightarrow>
           fst (celix_earpmc_unsubscribe E c t) = CELIX_SUCCESS
         \<and> subscriptions (snd (celix_earpmc_unsubscribe E c t)) = subscriptions c
         \<and> fst (celix_earpmc_unsubscribe E (snd (celix_earpmc_unsubscribe E c t)) t) = CELIX_SUCCESS
         \<and> subscriptions (snd (celix_earpmc_unsubscribe E (snd (celix_earpmc_unsubscribe E c t)) t))
             = subscriptions c)
      \<and> (\<not> connected c \<and> mem_ok E (allocs c) \<longrightarrow>
           fst (celix_earpmc_unsubscribe E c t) = CELIX_SUCCESS
         \<and> subscriptions (snd (celix_earpmc_unsubscribe E c t))
             = subscriptions c @ [(mqttTopic t, CELIX_EARPM_QOS_UNKNOWN)]
         \<and> fst (celix_earpmc_unsubscribe E (snd (celix_earpmc_unsubscribe E c t)) t) = CELIX_SUCCESS
         \<and> subscriptions (snd (celix_earpmc_unsubscribe E (snd (celix_earpmc_unsubscribe E c t)) t))
             = subscriptions (snd (celix_earpmc_unsubscribe E c t)))"
  using assms
  by (auto simp: ledger_defs Let_def map_of_None_keys AList.update_triv map_of_snoc
        update_snoc_same split: option.splits)

theorem unsubscribe_twice_without_subscription_witness:
  "celix_earpmc_validateTopic ''b'' \<and> map_of (subscriptions client_subscribed) (mqttTopic ''b'') = None
   \<and> connected client_subscribed
   \<and> fst (celix_earpmc_unsubscribe env_ok client_subscribed ''b'') = CELIX_SUCCESS
   \<and> subscriptions (snd (celix_earpmc_unsubscribe env_ok
        (snd (celix_earpmc_unsubscribe env_ok client_subscribed ''b'')) ''b''))
       = subscriptions client_subscribed
   \<and> \<not> connected (new_client 10 5)
   \<and> subscriptions (snd (celix_earpmc_unsubscribe env_ok (new_client 10 5) ''b''))
       = subscriptions (new_client 10 5) @ [(mqttTopic ''b'', CELIX_EARPM_QOS_UNKNOWN)]
   \<and> subscriptions (snd (celix_earpmc_unsubscribe env_ok
        (snd (celix_earpmc_unsubscribe env_ok (new_client 10 5) ''b'')) ''b''))
       = subscriptions (snd (celix_earpmc_unsubscribe env_ok (new_client 10 5) ''b''))"
proof -
  have h1: "celix_earpmc_validateTopic ''b''" by code_simp
  have h2: "map_of (subscriptions client_subscribed) (mqttTopic ''b'') = None" by code_simp
  have h3: "map_of (subscriptions (new_client 10 5)) (mqttTopic ''b'') = None" by code_simp
  have h4: "connected client_subscribed" by code_simp
  have h5: "\<not> connected (new_client 10 5)" by code_simp
  have h6: "wire_rc env_ok (length (mosq client_subscribed)) = MOSQ_ERR_SUCCESS
            \<and> wire_rc env_ok (Suc (length (mosq client_subscribed))) = MOSQ_ERR_SUCCESS"
    by code_simp
  have h7: "mem_ok env_ok (allocs (new_client 10 5))" by code_simp
  show ?thesis
    using unsubscribe_twice_without_subscription [OF h1 h2, of env_ok]
      unsubscribe_twice_without_subscription [OF h1 h3, of env_ok]
      h1 h2 h4 h5 h6 h7 by simp
qed

text \<open>
  C8 as stated fails while disconnected: the ledger of a new client is empty, and after one
  unsubscribe of topic \<^verbatim>\<open>b\<close> it holds the entry with the sentinel.
\<close>

theorem disconnected_unsubscribe_changes_ledger_counterexample:
  "celix_earpmc_validateTopic ''b'' \<and> subscriptions (new_client 10 5) = []
   \<and> \<not> connected (new_client 10 5)
   \<and> fst (celix_earpmc_unsubscribe env_ok (new_client 10 5) ''b'') = CELIX_SUCCESS
   \<and> subscriptions (snd (celix_earpmc_unsubscribe env_ok (new_client 10 5) ''b''))
       = [(''b'', CELIX_EARPM_QOS_UNKNOWN)]
   \<and> subscriptions (snd (celix_earpmc_unsubscribe env_ok (new_client 10 5) ''b''))
       \<noteq> subscriptions (new_client 10 5)"
  by code_simp

subsection \<open>What the operations leave unchanged\<close>

lemma upd_msg_simps [simp]:
  "parallelMsgCap (upd_msg p f c) = parallelMsgCap c"
  "waitingMessages (upd_msg p f c) = waitingMessages c"
  "publishingMessages (upd_msg p f c) = publishingMessages c"
  "publishedMessages (upd_msg p f c) = publishedMessages c"
  "subscriptions (upd_msg p f c) = subscriptions c"
  "connected (upd_msg p f c) = connected c"
  "nextSeqNr (upd_msg p f c) = nextSeqNr c"
  "mosq (upd_msg p f c) = mosq c"
  "allocs (upd_msg p f c) = allocs c"
  "cap (freeMsgPool (upd_msg p f c)) = cap (freeMsgPool c)"
  "usedSize (freeMsgPool (upd_msg p f c)) = usedSize (freeMsgPool c)"
  "freeMsgList (freeMsgPool (upd_msg p f c)) = freeMsgList (freeMsgPool c)"
  "msg_at (upd_msg p f c) x = (if x = p then f (msg_at c p) else msg_at c x)"
  by (simp_all add: upd_msg_def msg_at_def AList.update_conv')

lemma msg_at_field_update [simp]:
  "msg_at (c\<lparr>waitingMessages := w\<rparr>) = msg_at c"
  "msg_at (c\<lparr>publishingMessages := pm\<rparr>) = msg_at c"
  "msg_at (c\<lparr>publishedMessages := pd\<rparr>) = msg_at c"
  "msg_at (c\<lparr>subscriptions := sb\<rparr>) = msg_at c"
  "msg_at (c\<lparr>connected := b\<rparr>) = msg_at c"
  "msg_at (c\<lparr>nextSeqNr := n\<rparr>) = msg_at c"
  "msg_at (c\<lparr>mosq := ms\<rparr>) = msg_at c"
  "msg_at (c\<lparr>allocs := a\<rparr>) = msg_at c"
  by (simp_all add: msg_at_def fun_eq_iff)

lemma destroy_simps [simp]:
  "parallelMsgCap (celix_earpmc_messageDestroy c p) = parallelMsgCap c"
  "waitingMessages (celix_earpmc_messageDestroy c p) = waitingMessages c"
  "publishingMessages (celix_earpmc_messageDestroy c p) = publishingMessages c"
  "publishedMessages (celix_earpmc_messageDestroy c p) = publishedMessages c"
  "subscriptions (celix_earpmc_messageDestroy c p) = subscriptions c"
  "connected (celix_earpmc_messageDestroy c p) = connected c"
  "nextSeqNr (celix_earpmc_messageDestroy c p) = nextSeqNr c"
  "mosq (celix_earpmc_messageDestroy c p) = mosq c"
  "allocs (celix_earpmc_messageDestroy c p) = allocs c"
  "cap (freeMsgPool (celix_earpmc_messageDestroy c p)) = cap (freeMsgPool c)"
  "msg_at (celix_earpmc_messageDestroy c p) x =
     (if x = p then (msg_at c p)\<lparr>mqttProps := None\<rparr> else msg_at c x)"
  by (simp_all add: celix_earpmc_messageDestroy_def Let_def celix_earpmc_msgPoolFree_def
        upd_msg_def msg_at_def AList.update_conv')

lemma retain_simps [simp]:
  "parallelMsgCap (celix_earpmc_messageRetain c p) = parallelMsgCap c"
  "waitingMessages (celix_earpmc_messageRetain c p) = waitingMessages c"
  "publishingMessages (celix_earpmc_messageRetain c p) = publishingMessages c"
  "publishedMessages (celix_earpmc_messageRetain c p) = publishedMessages c"
  "subscriptions (celix_earpmc_messageRetain c p) = subscriptions c"
  "connected (celix_earpmc_messageRetain c p) = connected c"
  "nextSeqNr (celix_earpmc_messageRetain c p) = nextSeqNr c"
  "mosq (celix_earpmc_messageRetain c p) = mosq c"
  "allocs (celix_earpmc_messageRetain c p) = allocs c"
  "cap (freeMsgPool (celix_earpmc_messageRetain c p)) = cap (freeMsgPool c)"
  "msg_at (celix_earpmc_messageRetain c p) x =
     (if x = p then (msg_at c p)\<lparr>ref := ref (msg_at c p) + 1\<rparr> else msg_at c x)"
  by (simp_all add: celix_earpmc_messageRetain_def)

lemma release_simps [simp]:
  "parallelMsgCap (celix_earpmc_messageRelease c p) = parallelMsgCap c"
  "waitingMessages (celix_earpmc_messageRelease c p) = waitingMessages c"
  "publishingMessages (celix_earpmc_messageRelease c p) = publishingMessages c"
  "publishedMessages (celix_earpmc_messageRelease c p) = publishedMessages c"
  "subscriptions (celix_earpmc_messageRelease c p) = subscriptions c"
  "connected (celix_earpmc_messageRelease c p) = connected c"
  "nextSeqNr (celix_earpmc_messageRelease c p) = nextSeqNr c"
  "mosq (celix_earpmc_messageRelease c p) = mosq c"
  "allocs (celix_earpmc_messageRelease c p) = allocs c"
  "cap (freeMsgPool (celix_earpmc_messageRelease c p)) = cap (freeMsgPool c)"
  by (simp_all add: celix_earpmc_messageRelease_def Let_def)

lemma msg_at_release:
  "msg_at (celix_earpmc_messageRelease c p) x =
     (if x = p
      then (if ref (msg_at c p) = 1
            then (msg_at c p)\<lparr>ref := 0, mqttProps := None\<rparr>
            else (msg_at c p)\<lparr>ref := ref (msg_at c p) - 1\<rparr>)
      else msg_at c x)"
  by (simp add: celix_earpmc_messageRelease_def Let_def)


lemmas map_defs = publishingMessages_put_def publishingMessages_remove_def
  publishedMessages_put_def publishedMessages_remove_def

lemma enqueuePublished_frame [simp]:
  "parallelMsgCap (celix_earpmc_enqueueMsgToPublishedQueue E c p e) = parallelMsgCap c"
  "waitingMessages (celix_earpmc_enqueueMsgToPublishedQueue E c p e) = waitingMessages c"
  "publishingMessages (celix_earpmc_enqueueMsgToPublishedQueue E c p e) = publishingMessages c"
  "subscriptions (celix_earpmc_enqueueMsgToPublishedQueue E c p e) = subscriptions c"
  "connected (celix_earpmc_enqueueMsgToPublishedQueue E c p e) = connected c"
  "nextSeqNr (celix_earpmc_enqueueMsgToPublishedQueue E c p e) = nextSeqNr c"
  "mosq (celix_earpmc_enqueueMsgToPublishedQueue E c p e) = mosq c"
  "cap (freeMsgPool (celix_earpmc_enqueueMsgToPublishedQueue E c p e)) = cap (freeMsgPool c)"
  by (simp_all add: celix_earpmc_enqueueMsgToPublishedQueue_def publishedMessages_put_def Let_def
        split: option.splits)

lemma publishMessage_frame [simp]:
  "parallelMsgCap (snd (celix_earpmc_publishMessage E c p pl n pr)) = parallelMsgCap c"
  "waitingMessages (snd (celix_earpmc_publishMessage E c p pl n pr)) = waitingMessages c"
  "publishedMessages (snd (celix_earpmc_publishMessage E c p pl n pr)) = publishedMessages c"
  "subscriptions (snd (celix_earpmc_publishMessage E c p pl n pr)) = subscriptions c"
  "connected (snd (celix_earpmc_publishMessage E c p pl n pr)) = connected c"
  "nextSeqNr (snd (celix_earpmc_publishMessage E c p pl n pr)) = nextSeqNr c"
  "cap (freeMsgPool (snd (celix_earpmc_publishMessage E c p pl n pr))) = cap (freeMsgPool c)"
  "mosq (snd (celix_earpmc_publishMessage E c p pl n pr)) =
     mosq c @ [Publish (topic (msg_at c p)) (sint (word_of_nat n :: 32 word)) pl (qos (msg_at c p)) pr]"
  by (simp_all add: celix_earpmc_publishMessage_def mosquitto_publish_v5_def
        publishingMessages_put_def Let_def split: option.splits prod.splits)

lemma releaseWaiting_body_frame [simp]:
  "parallelMsgCap (releaseWaiting_body E c cur) = parallelMsgCap c"
  "subscriptions (releaseWaiting_body E c cur) = subscriptions c"
  "connected (releaseWaiting_body E c cur) = connected c"
  "nextSeqNr (releaseWaiting_body E c cur) = nextSeqNr c"
  "cap (freeMsgPool (releaseWaiting_body E c cur)) = cap (freeMsgPool c)"
  "waitingMessages (releaseWaiting_body E c cur) = remove1 cur (waitingMessages c)"
  "mosq (releaseWaiting_body E c cur) =
     mosq c @ [Publish (topic (msg_at c cur)) (sint (word_of_nat (payloadSize (msg_at c cur)) :: 32 word))
                 (payload (msg_at c cur)) (qos (msg_at c cur)) (mqttProps (msg_at c cur))]"
  by (simp_all add: releaseWaiting_body_def Let_def case_prod_unfold)

lemma releaseWaiting_loop_frame [simp]:
  "parallelMsgCap (releaseWaiting_loop E ps c) = parallelMsgCap c"
  "subscriptions (releaseWaiting_loop E ps c) = subscriptions c"
  "connected (releaseWaiting_loop E ps c) = connected c"
  "nextSeqNr (releaseWaiting_loop E ps c) = nextSeqNr c"
  "cap (freeMsgPool (releaseWaiting_loop E ps c)) = cap (freeMsgPool c)"
  by (induction ps arbitrary: c) simp_all

lemma releaseWaiting_loop_mosq:
  "\<exists>xs. mosq (releaseWaiting_loop E ps c) = mosq c @ xs
        \<and> (\<forall>x \<in> set xs. \<forall>t q. x \<noteq> Subscribe t q \<and> x \<noteq> Unsubscribe t)"
proof (induction ps arbitrary: c)
  case Nil
  show ?case by simp
next
  case (Cons cur rest)
  show ?case
  proof (cases "celix_earpmc_isPublishingQueueFull c")
    case True
    then show ?thesis by simp
  next
    case False
    from Cons.IH [of "releaseWaiting_body E c cur"]
    obtain xs where xs: "mosq (releaseWaiting_loop E rest (releaseWaiting_body E c cur))
                          = mosq (releaseWaiting_body E c cur) @ xs"
      and np: "\<forall>x \<in> set xs. \<forall>t q. x \<noteq> Subscribe t q \<and> x \<noteq> Unsubscribe t"
      by blast
    let ?p = "Publish (topic (msg_at c cur))
                (sint (word_of_nat (payloadSize (msg_at c cur)) :: 32 word))
                (payload (msg_at c cur)) (qos (msg_at c cur)) (mqttProps (msg_at c cur))"
    have "mosq (releaseWaiting_loop E (cur # rest) c) = mosq c @ (?p # xs)"
      using False xs by simp
    moreover have "\<forall>x \<in> set (?p # xs). \<forall>t q. x \<noteq> Subscribe t q \<and> x \<noteq> Unsubscribe t"
      using np by simp
    ultimately show ?thesis by blast
  qed
qed

lemma refresh_loop_frame [simp]:
  "waitingMessages (refreshSubscriptions_loop E es c) = waitingMessages c"
  "publishingMessages (refreshSubscriptions_loop E es c) = publishingMessages c"
  "publishedMessages (refreshSubscriptions_loop E es c) = publishedMessages c"
  "connected (refreshSubscriptions_loop E es c) = connected c"
  "freeMsgPool (refreshSubscriptions_loop E es c) = freeMsgPool c"
  "parallelMsgCap (refreshSubscriptions_loop E es c) = parallelMsgCap c"
  by (induction E es c rule: refreshSubscriptions_loop.induct)
     (simp_all add: mosquitto_subscribe_v5_def mosquitto_unsubscribe_def subscriptions_remove_def)

lemma refresh_loop_mosq:
  "mosq (refreshSubscriptions_loop E es c) =
     mosq c @ map (\<lambda>(t, q). if q > CELIX_EARPM_QOS_UNKNOWN then Subscribe t q else Unsubscribe t) es"
  by (induction E es c rule: refreshSubscriptions_loop.induct)
     (simp_all add: mosquitto_subscribe_v5_def mosquitto_unsubscribe_def subscriptions_remove_def)

lemma refresh_loop_subscriptions:
  "subscriptions (refreshSubscriptions_loop E es c) =
     filter (\<lambda>e. \<not> list_ex (\<lambda>x. fst x = fst e \<and> \<not> snd x > CELIX_EARPM_QOS_UNKNOWN) es)
       (subscriptions c)"
proof (induction E es c rule: refreshSubscriptions_loop.induct)
  case (1 E c)
  show ?case by simp
next
  case (2 E t q es c)
  show ?case
  proof (cases "q > CELIX_EARPM_QOS_UNKNOWN")
    case True
    then show ?thesis using 2 by (simp add: mosquitto_subscribe_v5_def)
  next
    case False
    have "filter (\<lambda>e. \<not> list_ex (\<lambda>x. fst x = fst e \<and> \<not> snd x > CELIX_EARPM_QOS_UNKNOWN) es)
            (AList.delete t (subscriptions c))
          = filter (\<lambda>e. \<not> list_ex (\<lambda>x. fst x = fst e \<and> \<not> snd x > CELIX_EARPM_QOS_UNKNOWN)
                            ((t, q) # es)) (subscriptions c)"
      using False by (auto simp: AList.delete_eq intro!: filter_cong)
    then show ?thesis
      using False 2 by (simp add: mosquitto_unsubscribe_def subscriptions_remove_def)
  qed
qed

subsection \<open>Resubscription after a reconnect\<close>

lemma snoc_is_update: "map_of al k = None \<Longrightarrow> al @ [(k, v)] = AList.update k v al"
  by (induction al) (auto split: if_splits)

lemma disconnected_sub_unsub:
  assumes "celix_earpmc_validateTopic t" and "\<not> connected c"
    and "map_of (subscriptions c) (mqttTopic t) \<noteq> None \<or> mem_ok E (allocs c)"
  shows "fst (celix_earpmc_subscribe E c t q) = CELIX_SUCCESS"
    and "fst (celix_earpmc_unsubscribe E (snd (celix_earpmc_subscribe E c t q)) t) = CELIX_SUCCESS"
    and "subscriptions (snd (celix_earpmc_unsubscribe E (snd (celix_earpmc_subscribe E c t q)) t))
           = AList.update (mqttTopic t) CELIX_EARPM_QOS_UNKNOWN (subscriptions c)"
    and "mosq (snd (celix_earpmc_unsubscribe E (snd (celix_earpmc_subscribe E c t q)) t)) = mosq c"
  using assms
  by (auto simp: ledger_defs Let_def AList.update_conv' map_of_snoc update_snoc_same
        snoc_is_update split: option.splits)

lemma connectCallback_ledger:
  "subscriptions (celix_earpmc_connectCallback E c MQTT_RC_SUCCESS) =
     filter (\<lambda>e. \<not> list_ex (\<lambda>x. fst x = fst e \<and> \<not> snd x > CELIX_EARPM_QOS_UNKNOWN)
                        (subscriptions c)) (subscriptions c)"
  by (simp add: celix_earpmc_connectCallback_def celix_earpmc_releaseWaitingMsgToPublishing_def
        celix_earpmc_refreshSubscriptions_def refresh_loop_subscriptions)

lemma connectCallback_mosq:
  "\<exists>xs. mosq (celix_earpmc_connectCallback E c MQTT_RC_SUCCESS) =
          mosq c @ map (\<lambda>(t, q). if q > CELIX_EARPM_QOS_UNKNOWN then Subscribe t q else Unsubscribe t)
                     (subscriptions c) @ xs
        \<and> (\<forall>x \<in> set xs. \<forall>t q. x \<noteq> Subscribe t q \<and> x \<noteq> Unsubscribe t)"
proof -
  let ?c1 = "celix_earpmc_refreshSubscriptions E (c\<lparr>connected := True\<rparr>)"
  have m1: "mosq ?c1 = mosq c @ map (\<lambda>(t, q). if q > CELIX_EARPM_QOS_UNKNOWN then Subscribe t q else Unsubscribe t)
                     (subscriptions c)"
    by (simp add: celix_earpmc_refreshSubscriptions_def refresh_loop_mosq)
  from releaseWaiting_loop_mosq [of E "waitingMessages ?c1" ?c1]
  obtain xs where "mosq (releaseWaiting_loop E (waitingMessages ?c1) ?c1) = mosq ?c1 @ xs"
    and "\<forall>x \<in> set xs. \<forall>t q. x \<noteq> Subscribe t q \<and> x \<noteq> Unsubscribe t" by blast
  then show ?thesis
    using m1
    by (auto simp: celix_earpmc_connectCallback_def celix_earpmc_releaseWaitingMsgToPublishing_def)
qed

text \<open>
  C9. For a valid topic, on a disconnected client whose ledger has distinct keys and whose
  insertion can allocate: subscribing with QoS 1 and then unsubscribing both succeed and
  leave the entry of the topic (under the key the client uses for it, the translated topic)
  at the sentinel; the next successful connect callback sends an unsubscribe and no subscribe
  for that key, and afterwards the ledger has no entry for it.
\<close>

theorem subscribe_unsubscribe_disconnected_roundtrip:
  assumes "celix_earpmc_validateTopic t" and "\<not> connected c"
    and "map_of (subscriptions c) (mqttTopic t) \<noteq> None \<or> mem_ok E (allocs c)"
    and "distinct (map fst (subscriptions c))"
  shows "let r1 = celix_earpmc_subscribe E c t CELIX_EARPM_QOS_AT_LEAST_ONCE;
             r2 = celix_earpmc_unsubscribe E (snd r1) t;
             c3 = celix_earpmc_connectCallback E' (snd r2) MQTT_RC_SUCCESS;
             sent = drop (length (mosq (snd r2))) (mosq c3)
         in fst r1 = CELIX_SUCCESS \<and> fst r2 = CELIX_SUCCESS
          \<and> map_of (subscriptions (snd r2)) (mqttTopic t) = Some CELIX_EARPM_QOS_UNKNOWN
          \<and> connected c3
          \<and> Unsubscribe (mqttTopic t) \<in> set sent
          \<and> (\<forall>q. Subscribe (mqttTopic t) q \<notin> set sent)
          \<and> map_of (subscriptions c3) (mqttTopic t) = None"
proof -
  let ?k = "mqttTopic t"
  let ?r1 = "celix_earpmc_subscribe E c t CELIX_EARPM_QOS_AT_LEAST_ONCE"
  let ?r2 = "celix_earpmc_unsubscribe E (snd ?r1) t"
  let ?c3 = "celix_earpmc_connectCallback E' (snd ?r2) MQTT_RC_SUCCESS"
  let ?f = "\<lambda>(t, q). if q > CELIX_EARPM_QOS_UNKNOWN then Subscribe t q else Unsubscribe t"
  note su = disconnected_sub_unsub [OF assms(1-3), of CELIX_EARPM_QOS_AT_LEAST_ONCE]
  have led: "subscriptions (snd ?r2) = AList.update ?k CELIX_EARPM_QOS_UNKNOWN (subscriptions c)"
    by (rule su(3))
  have look: "map_of (subscriptions (snd ?r2)) ?k = Some CELIX_EARPM_QOS_UNKNOWN"
    by (simp add: led AList.update_conv')
  have dist: "distinct (map fst (subscriptions (snd ?r2)))"
    by (simp add: led AList.distinct_update assms(4))
  have mem: "(?k, CELIX_EARPM_QOS_UNKNOWN) \<in> set (subscriptions (snd ?r2))"
    using look by (rule map_of_SomeD)
  have only: "\<And>q. (?k, q) \<in> set (subscriptions (snd ?r2)) \<Longrightarrow> q = CELIX_EARPM_QOS_UNKNOWN"
    using dist look by (metis map_of_is_SomeI option.inject)
  have conn: "connected ?c3"
    by (simp add: celix_earpmc_connectCallback_def celix_earpmc_releaseWaitingMsgToPublishing_def
          celix_earpmc_refreshSubscriptions_def)
  from connectCallback_mosq [of E' "snd ?r2"]
  obtain xs where m: "mosq ?c3 = mosq (snd ?r2) @ map ?f (subscriptions (snd ?r2)) @ xs"
    and np: "\<forall>x \<in> set xs. \<forall>t q. x \<noteq> Subscribe t q \<and> x \<noteq> Unsubscribe t" by blast
  have sent: "drop (length (mosq (snd ?r2))) (mosq ?c3) = map ?f (subscriptions (snd ?r2)) @ xs"
    by (simp add: m)
  have u: "Unsubscribe ?k \<in> set (map ?f (subscriptions (snd ?r2)))"
    using mem by (force simp: image_iff)
  have ns: "\<And>q. Subscribe ?k q \<notin> set (map ?f (subscriptions (snd ?r2)) @ xs)"
  proof
    fix q assume "Subscribe ?k q \<in> set (map ?f (subscriptions (snd ?r2)) @ xs)"
    then have "Subscribe ?k q \<in> set (map ?f (subscriptions (snd ?r2)))" using np by auto
    then obtain e where e: "e \<in> set (subscriptions (snd ?r2))" and fe: "?f e = Subscribe ?k q"
      by auto
    obtain a b where ab: "e = (a, b)" by (cases e)
    from fe ab have "a = ?k" and "b > CELIX_EARPM_QOS_UNKNOWN" by (auto split: if_splits)
    with e ab only show False by auto
  qed
  have gone: "map_of (subscriptions ?c3) ?k = None"
  proof -
    have "?k \<notin> fst ` set (subscriptions ?c3)"
      using mem by (auto simp: connectCallback_ledger list_ex_iff)
    then show ?thesis by (simp add: map_of_eq_None_iff)
  qed
  show ?thesis
    unfolding Let_def
    using su(1) su(2) look conn u ns gone by (simp add: sent)
qed

theorem subscribe_unsubscribe_disconnected_roundtrip_witness:
  "celix_earpmc_validateTopic ''a/*'' \<and> \<not> connected (new_client 10 5)
   \<and> mem_ok env_ok (allocs (new_client 10 5))
   \<and> distinct (map fst (subscriptions (new_client 10 5)))
   \<and> mqttTopic ''a/*'' = ''a/#''
   \<and> map_of (subscriptions (snd (celix_earpmc_unsubscribe env_ok
         (snd (celix_earpmc_subscribe env_ok (new_client 10 5) ''a/*'' CELIX_EARPM_QOS_AT_LEAST_ONCE))
         ''a/*''))) ''a/#'' = Some CELIX_EARPM_QOS_UNKNOWN
   \<and> Unsubscribe ''a/#'' \<in> set (mosq (celix_earpmc_connectCallback env_ok
         (snd (celix_earpmc_unsubscribe env_ok
         (snd (celix_earpmc_subscribe env_ok (new_client 10 5) ''a/*'' CELIX_EARPM_QOS_AT_LEAST_ONCE))
         ''a/*'')) MQTT_RC_SUCCESS))
   \<and> map_of (subscriptions (celix_earpmc_connectCallback env_ok
         (snd (celix_earpmc_unsubscribe env_ok
         (snd (celix_earpmc_subscribe env_ok (new_client 10 5) ''a/*'' CELIX_EARPM_QOS_AT_LEAST_ONCE))
         ''a/*'')) MQTT_RC_SUCCESS)) ''a/#'' = None"
proof -
  have h1: "celix_earpmc_validateTopic ''a/*''" by code_simp
  have h2: "\<not> connected (new_client 10 5)" by code_simp
  have h3: "map_of (subscriptions (new_client 10 5)) (mqttTopic ''a/*'') \<noteq> None
            \<or> mem_ok env_ok (allocs (new_client 10 5))" by code_simp
  have h3': "mem_ok env_ok (allocs (new_client 10 5))" by code_simp
  have h4: "distinct (map fst (subscriptions (new_client 10 5)))" by code_simp
  have h5: "mqttTopic ''a/*'' = ''a/#''" by code_simp
  have h6: "mosq (snd (celix_earpmc_unsubscribe env_ok
         (snd (celix_earpmc_subscribe env_ok (new_client 10 5) ''a/*'' CELIX_EARPM_QOS_AT_LEAST_ONCE))
         ''a/*'')) = []" by code_simp
  show ?thesis
    using subscribe_unsubscribe_disconnected_roundtrip [OF h1 h2 h3 h4, of env_ok]
      h1 h2 h3' h4 h5 h6
    by (simp add: Let_def)
qed

subsection \<open>Admission\<close>

lemma unat_scaled_div:
  fixes x :: "64 word"
  assumes "unat x * k < 2 ^ 64" and "k < 2 ^ 64" and "d < 2 ^ 64"
  shows "unat (x * word_of_nat k div word_of_nat d) = unat x * k div d"
proof -
  have k: "unat (word_of_nat k :: 64 word) = k" using assms(2) by (simp add: unat_of_nat)
  have d: "unat (word_of_nat d :: 64 word) = d" using assms(3) by (simp add: unat_of_nat)
  have "unat (x * word_of_nat k) = unat x * k"
    using assms(1) k unat_mult_lem [of x "word_of_nat k"] by simp
  then show ?thesis by (simp add: unat_div d)
qed

lemma hasFree_nat:
  assumes "unat (cap (freeMsgPool c)) * 85 < 2 ^ 64"
  shows "celix_earpmc_hasFreeMsgFor c CELIX_EARPMC_MSG_PRI_LOW
           \<longleftrightarrow> unat (usedSize (freeMsgPool c)) < unat (cap (freeMsgPool c)) * 70 div 100"
    and "celix_earpmc_hasFreeMsgFor c CELIX_EARPMC_MSG_PRI_MIDDLE
           \<longleftrightarrow> unat (usedSize (freeMsgPool c)) < unat (cap (freeMsgPool c)) * 85 div 100"
    and "celix_earpmc_hasFreeMsgFor c CELIX_EARPMC_MSG_PRI_HIGH
           \<longleftrightarrow> unat (usedSize (freeMsgPool c)) < unat (cap (freeMsgPool c))"
proof -
  have b70: "unat (cap (freeMsgPool c)) * 70 < 2 ^ 64" using assms by linarith
  have "unat (cap (freeMsgPool c) * word_of_nat 70 div word_of_nat 100)
          = unat (cap (freeMsgPool c)) * 70 div 100"
    by (rule unat_scaled_div [OF b70]) simp_all
  then show "celix_earpmc_hasFreeMsgFor c CELIX_EARPMC_MSG_PRI_LOW
           \<longleftrightarrow> unat (usedSize (freeMsgPool c)) < unat (cap (freeMsgPool c)) * 70 div 100"
    by (simp add: word_less_nat_alt)
  have "unat (cap (freeMsgPool c) * word_of_nat 85 div word_of_nat 100)
          = unat (cap (freeMsgPool c)) * 85 div 100"
    by (rule unat_scaled_div [OF assms]) simp_all
  then show "celix_earpmc_hasFreeMsgFor c CELIX_EARPMC_MSG_PRI_MIDDLE
           \<longleftrightarrow> unat (usedSize (freeMsgPool c)) < unat (cap (freeMsgPool c)) * 85 div 100"
    by (simp add: word_less_nat_alt)
  show "celix_earpmc_hasFreeMsgFor c CELIX_EARPMC_MSG_PRI_HIGH
           \<longleftrightarrow> unat (usedSize (freeMsgPool c)) < unat (cap (freeMsgPool c))"
    by (simp add: word_less_nat_alt)
qed


lemma publishAsync_rejected:
  assumes "\<not> celix_earpmc_hasFreeMsgFor c pr"
  shows "celix_earpmc_publishAsync E c t pl n q props pr =
           (if q \<le> CELIX_EARPM_QOS_AT_MOST_ONCE \<and> \<not> connected c then ENOTCONN else ENOMEM, c)"
  using assms by (simp add: celix_earpmc_publishAsync_def)

lemma publishAsync_queued_ok:
  assumes "celix_earpmc_hasFreeMsgFor c pr" and "\<not> connected c"
    and "q > CELIX_EARPM_QOS_AT_MOST_ONCE" and "freeMsgList (freeMsgPool c) \<noteq> []"
    and "\<forall>i. mem_ok E i"
  shows "fst (celix_earpmc_publishAsync E c t pl n q props pr) = CELIX_SUCCESS"
proof -
  obtain p rest where fl: "freeMsgList (freeMsgPool c) = p # rest"
    using assms(4) by (cases "freeMsgList (freeMsgPool c)") auto
  show ?thesis
    using assms(1-3,5) fl
    by (simp add: celix_earpmc_publishAsync_def celix_earpmc_messageCreate_def
          celix_earpmc_msgPoolAlloc_def celix_earpmc_publishDoNext_def
          celix_earpmc_fillMessagePayload_def Let_def case_prod_unfold)
qed

text \<open>
  C5, as the code has it. When \<^verbatim>\<open>cap * 85\<close> does not overflow \<^verbatim>\<open>size_t\<close> (the
  capacity is bounded by a small maximum at creation), the admission decision is a function
  of capacity, used count and priority in integer arithmetic: LOW is admitted iff the used
  count is below \<open>cap * 70 div 100\<close>, MEDIUM iff below \<open>cap * 85 div 100\<close>, HIGH iff below
  \<open>cap\<close>. With capacity 100 and 70 blocks in use, a LOW publish that passes the
  connectivity check is rejected with \<^verbatim>\<open>ENOMEM\<close> while HIGH is admitted, and a HIGH
  publish with QoS 1 or 2 on the disconnected client is queued with success.
\<close>

theorem admission_thresholds:
  assumes "unat (cap (freeMsgPool c)) * 85 < 2 ^ 64"
  shows "(celix_earpmc_hasFreeMsgFor c CELIX_EARPMC_MSG_PRI_LOW
            \<longleftrightarrow> unat (usedSize (freeMsgPool c)) < unat (cap (freeMsgPool c)) * 70 div 100)
       \<and> (celix_earpmc_hasFreeMsgFor c CELIX_EARPMC_MSG_PRI_MIDDLE
            \<longleftrightarrow> unat (usedSize (freeMsgPool c)) < unat (cap (freeMsgPool c)) * 85 div 100)
       \<and> (celix_earpmc_hasFreeMsgFor c CELIX_EARPMC_MSG_PRI_HIGH
            \<longleftrightarrow> unat (usedSize (freeMsgPool c)) < unat (cap (freeMsgPool c)))
       \<and> (cap (freeMsgPool c) = 100 \<and> usedSize (freeMsgPool c) = 70
            \<and> (q > CELIX_EARPM_QOS_AT_MOST_ONCE \<or> connected c) \<longrightarrow>
              fst (celix_earpmc_publishAsync E c t pl n q props CELIX_EARPMC_MSG_PRI_LOW) = ENOMEM
            \<and> celix_earpmc_hasFreeMsgFor c CELIX_EARPMC_MSG_PRI_HIGH)
       \<and> (cap (freeMsgPool c) = 100 \<and> usedSize (freeMsgPool c) = 70
            \<and> q > CELIX_EARPM_QOS_AT_MOST_ONCE \<and> \<not> connected c
            \<and> freeMsgList (freeMsgPool c) \<noteq> [] \<and> (\<forall>i. mem_ok E i) \<longrightarrow>
              fst (celix_earpmc_publishAsync E c t pl n q props CELIX_EARPMC_MSG_PRI_HIGH)
                = CELIX_SUCCESS)"
proof -
  note nat = hasFree_nat [OF assms]
  have low: "cap (freeMsgPool c) = 100 \<Longrightarrow> usedSize (freeMsgPool c) = 70 \<Longrightarrow>
             \<not> celix_earpmc_hasFreeMsgFor c CELIX_EARPMC_MSG_PRI_LOW"
    by simp
  have high: "cap (freeMsgPool c) = 100 \<Longrightarrow> usedSize (freeMsgPool c) = 70 \<Longrightarrow>
             celix_earpmc_hasFreeMsgFor c CELIX_EARPMC_MSG_PRI_HIGH"
    by simp
  show ?thesis
    using nat low high publishAsync_rejected [of c CELIX_EARPMC_MSG_PRI_LOW E t pl n q props]
      publishAsync_queued_ok [of c CELIX_EARPMC_MSG_PRI_HIGH q E t pl n props]
    by (auto simp del: celix_earpmc_hasFreeMsgFor.simps)
qed

theorem admission_thresholds_witness:
  "unat (cap (freeMsgPool client_70_of_100)) * 85 < 2 ^ 64
   \<and> cap (freeMsgPool client_70_of_100) = 100 \<and> usedSize (freeMsgPool client_70_of_100) = 70
   \<and> \<not> connected client_70_of_100
   \<and> \<not> celix_earpmc_hasFreeMsgFor client_70_of_100 CELIX_EARPMC_MSG_PRI_LOW
   \<and> celix_earpmc_hasFreeMsgFor client_70_of_100 CELIX_EARPMC_MSG_PRI_MIDDLE
   \<and> celix_earpmc_hasFreeMsgFor client_70_of_100 CELIX_EARPMC_MSG_PRI_HIGH
   \<and> fst (celix_earpmc_publishAsync env_ok client_70_of_100 ''t'' (Some ''x'') 1
            CELIX_EARPM_QOS_AT_LEAST_ONCE None CELIX_EARPMC_MSG_PRI_LOW) = ENOMEM
   \<and> fst (celix_earpmc_publishAsync env_ok client_70_of_100 ''t'' (Some ''x'') 1
            CELIX_EARPM_QOS_AT_LEAST_ONCE None CELIX_EARPMC_MSG_PRI_HIGH) = CELIX_SUCCESS"
proof -
  have h0: "cap (freeMsgPool client_70_of_100) = 100 \<and> usedSize (freeMsgPool client_70_of_100) = 70
            \<and> \<not> connected client_70_of_100
            \<and> freeMsgList (freeMsgPool client_70_of_100) = [70 ..< 100]"
    by (simp add: client_70_of_100_def new_client_def celix_earpmc_msgPoolInit_def)
  have h1: "unat (cap (freeMsgPool client_70_of_100)) * 85 < 2 ^ 64" using h0 by simp
  have h2: "CELIX_EARPM_QOS_AT_LEAST_ONCE > CELIX_EARPM_QOS_AT_MOST_ONCE" by (simp add: qos_defs)
  have h3: "\<forall>i. mem_ok env_ok i" by (simp add: env_ok_def)
  have h4: "freeMsgList (freeMsgPool client_70_of_100) \<noteq> []" using h0 by simp
  show ?thesis
    using admission_thresholds [OF h1, of CELIX_EARPM_QOS_AT_LEAST_ONCE env_ok "''t''" "Some ''x''" 1 None]
      h0 h1 h2 h3 h4
    by simp
qed

text \<open>
  C5 as stated fails: with capacity 1 and no block in use the used count is below 70 percent
  of the capacity, and LOW is not admitted.
\<close>

theorem admission_not_exact_percentage_counterexample:
  "cap (freeMsgPool (new_client 1 1)) = 1 \<and> usedSize (freeMsgPool (new_client 1 1)) = 0
   \<and> 100 * unat (usedSize (freeMsgPool (new_client 1 1))) < 70 * unat (cap (freeMsgPool (new_client 1 1)))
   \<and> \<not> celix_earpmc_hasFreeMsgFor (new_client 1 1) CELIX_EARPMC_MSG_PRI_LOW"
  by (simp add: new_client_def celix_earpmc_msgPoolInit_def)

subsection \<open>A pool of capacity 1\<close>

lemma cap1_never_low:
  "cap (freeMsgPool c) = 1 \<Longrightarrow> \<not> celix_earpmc_hasFreeMsgFor c CELIX_EARPMC_MSG_PRI_LOW"
  by simp

lemma admit_cap1:
  assumes "cap (freeMsgPool c) = 1" and "q > CELIX_EARPM_QOS_AT_MOST_ONCE"
    and "\<forall>w \<in> set ws. \<forall>c'. cap (freeMsgPool (snd w c')) = cap (freeMsgPool c')"
  shows "publishSync_admit c q ws =
           (case find (\<lambda>w. fst w \<noteq> CELIX_SUCCESS) ws of
              None \<Rightarrow> Blocked
            | Some w \<Rightarrow>
                Returns (Inl (fst w),
                  foldl (\<lambda>c' w'. snd w' c') c
                    (takeWhile (\<lambda>w. fst w = CELIX_SUCCESS) ws @ [w])))"
  using assms
proof (induction ws arbitrary: c)
  case Nil
  then show ?case by simp
next
  case (Cons w ws)
  obtain st f where w: "w = (st, f)" by (cases w)
  have capf: "cap (freeMsgPool (f c)) = 1" using Cons.prems(1,3) w by simp
  show ?case
  proof (cases "st = CELIX_SUCCESS")
    case True
    have "publishSync_admit c q (w # ws) = publishSync_admit (f c) q ws"
      using True w Cons.prems(1,2) by simp
    also have "\<dots> = (case find (\<lambda>w. fst w \<noteq> CELIX_SUCCESS) ws of
              None \<Rightarrow> Blocked
            | Some w \<Rightarrow>
                Returns (Inl (fst w),
                  foldl (\<lambda>c' w'. snd w' c') (f c)
                    (takeWhile (\<lambda>w. fst w = CELIX_SUCCESS) ws @ [w])))"
      using Cons.IH [OF capf Cons.prems(2)] Cons.prems(3) by simp
    finally show ?thesis using True w by (simp split: option.splits)
  next
    case False
    then show ?thesis using w Cons.prems(1,2) by simp
  qed
qed


lemma publishSync_qos0:
  assumes "\<not> celix_earpmc_hasFreeMsgFor c CELIX_EARPMC_MSG_PRI_LOW"
    and "q \<le> CELIX_EARPM_QOS_AT_MOST_ONCE"
  shows "celix_earpmc_publishSync E c t pl n q props ws =
           Returns (if \<not> connected c then ENOTCONN else ENOMEM, c)"
  using assms by (cases ws) (auto simp: celix_earpmc_publishSync_def)

lemma publishSync_admit_fails:
  assumes "publishSync_admit c q ws = Returns (Inl st, c')" and "q > CELIX_EARPM_QOS_AT_MOST_ONCE"
  shows "celix_earpmc_publishSync E c t pl n q props ws = Returns (st, c')"
  using assms by (simp add: celix_earpmc_publishSync_def)

lemma publishSync_admit_blocked:
  assumes "publishSync_admit c q ws = Blocked" and "q > CELIX_EARPM_QOS_AT_MOST_ONCE"
  shows "celix_earpmc_publishSync E c t pl n q props ws = Blocked"
  using assms by (simp add: celix_earpmc_publishSync_def)

text \<open>
  C10, as the code has it. With capacity 1 the LOW threshold is 0, so LOW is never admitted.
  An asynchronous LOW publish is rejected: with \<^verbatim>\<open>ENOTCONN\<close> when the QoS is 0 and the
  client is disconnected, with \<^verbatim>\<open>ENOMEM\<close> otherwise. A synchronous publish with QoS 0
  fails at once in the same way. A synchronous publish with QoS 1 or 2 waits: it returns the
  status of the first wait that fails, and it stays blocked as long as no wait fails. The
  capacity 1 passes the validation of the creation.
\<close>

theorem capacity_one_admits_no_low_message:
  assumes "cap (freeMsgPool c) = 1"
  shows "\<not> celix_earpmc_hasFreeMsgFor c CELIX_EARPMC_MSG_PRI_LOW
    \<and> celix_earpmc_publishAsync E c t pl n q props CELIX_EARPMC_MSG_PRI_LOW
        = (if q \<le> CELIX_EARPM_QOS_AT_MOST_ONCE \<and> \<not> connected c then ENOTCONN else ENOMEM, c)
    \<and> (q \<le> CELIX_EARPM_QOS_AT_MOST_ONCE \<longrightarrow>
         celix_earpmc_publishSync E c t pl n q props ws
           = Returns (if \<not> connected c then ENOTCONN else ENOMEM, c))
    \<and> (q > CELIX_EARPM_QOS_AT_MOST_ONCE
        \<and> (\<forall>w \<in> set ws. \<forall>c'. cap (freeMsgPool (snd w c')) = cap (freeMsgPool c')) \<longrightarrow>
         celix_earpmc_publishSync E c t pl n q props ws
           = (case find (\<lambda>w. fst w \<noteq> CELIX_SUCCESS) ws of
                None \<Rightarrow> Blocked
              | Some w \<Rightarrow>
                  Returns (fst w,
                    foldl (\<lambda>c' w'. snd w' c') c
                      (takeWhile (\<lambda>w. fst w = CELIX_SUCCESS) ws @ [w]))))
    \<and> (1 \<le> maxSize \<and> 0 < pc \<and> pc \<le> maxSize \<longrightarrow>
         celix_earpmc_create maxSize True 1 pc = Some (new_client 1 (word_of_int pc))
         \<and> cap (freeMsgPool (new_client 1 (word_of_int pc))) = 1)"
proof -
  have low: "\<not> celix_earpmc_hasFreeMsgFor c CELIX_EARPMC_MSG_PRI_LOW"
    using assms by (rule cap1_never_low)
  have async: "celix_earpmc_publishAsync E c t pl n q props CELIX_EARPMC_MSG_PRI_LOW
        = (if q \<le> CELIX_EARPM_QOS_AT_MOST_ONCE \<and> \<not> connected c then ENOTCONN else ENOMEM, c)"
    using low by (simp add: celix_earpmc_publishAsync_def del: celix_earpmc_hasFreeMsgFor.simps)
  have s0: "q \<le> CELIX_EARPM_QOS_AT_MOST_ONCE \<Longrightarrow>
         celix_earpmc_publishSync E c t pl n q props ws
           = Returns (if \<not> connected c then ENOTCONN else ENOMEM, c)"
    using low by (rule publishSync_qos0)
  have s1: "celix_earpmc_publishSync E c t pl n q props ws
           = (case find (\<lambda>w. fst w \<noteq> CELIX_SUCCESS) ws of
                None \<Rightarrow> Blocked
              | Some w \<Rightarrow>
                  Returns (fst w,
                    foldl (\<lambda>c' w'. snd w' c') c
                      (takeWhile (\<lambda>w. fst w = CELIX_SUCCESS) ws @ [w])))"
    if q: "q > CELIX_EARPM_QOS_AT_MOST_ONCE"
      and pres: "\<forall>w \<in> set ws. \<forall>c'. cap (freeMsgPool (snd w c')) = cap (freeMsgPool c')"
  proof (cases "find (\<lambda>w. fst w \<noteq> CELIX_SUCCESS) ws")
    case None
    then have "publishSync_admit c q ws = Blocked"
      using admit_cap1 [OF assms q pres] by simp
    then show ?thesis using None publishSync_admit_blocked [OF _ q] by simp
  next
    case (Some w)
    then have "publishSync_admit c q ws = Returns (Inl (fst w),
                  foldl (\<lambda>c' w'. snd w' c') c
                    (takeWhile (\<lambda>w. fst w = CELIX_SUCCESS) ws @ [w]))"
      using admit_cap1 [OF assms q pres] by simp
    then show ?thesis using Some publishSync_admit_fails [OF _ q] by simp
  qed
  have cr: "1 \<le> maxSize \<and> 0 < pc \<and> pc \<le> maxSize \<Longrightarrow>
         celix_earpmc_create maxSize True 1 pc = Some (new_client 1 (word_of_int pc))
         \<and> cap (freeMsgPool (new_client 1 (word_of_int pc))) = 1"
    by (simp add: celix_earpmc_create_def new_client_def celix_earpmc_msgPoolInit_def)
  from low async s0 s1 cr show ?thesis by blast
qed

theorem capacity_one_admits_no_low_message_witness:
  "cap (freeMsgPool (new_client 1 1)) = 1
   \<and> \<not> celix_earpmc_hasFreeMsgFor (new_client 1 1) CELIX_EARPMC_MSG_PRI_LOW
   \<and> celix_earpmc_publishAsync env_ok (new_client 1 1) ''t'' None 0 CELIX_EARPM_QOS_AT_LEAST_ONCE
        None CELIX_EARPMC_MSG_PRI_LOW = (ENOMEM, new_client 1 1)
   \<and> celix_earpmc_publishSync env_ok (new_client 1 1) ''t'' None 0 CELIX_EARPM_QOS_AT_MOST_ONCE
        None [] = Returns (ENOTCONN, new_client 1 1)
   \<and> celix_earpmc_publishSync env_ok (new_client 1 1) ''t'' None 0 CELIX_EARPM_QOS_AT_LEAST_ONCE
        None [(CELIX_SUCCESS, \<lambda>c. c), (ETIMEDOUT, \<lambda>c. c)] = Returns (ETIMEDOUT, new_client 1 1)
   \<and> celix_earpmc_publishSync env_ok (new_client 1 1) ''t'' None 0 CELIX_EARPM_QOS_AT_LEAST_ONCE
        None [(CELIX_SUCCESS, \<lambda>c. c)] = Blocked
   \<and> celix_earpmc_create 2048 True 1 1 = Some (new_client 1 1)"
proof -
  have h: "cap (freeMsgPool (new_client 1 1)) = 1"
    by (simp add: new_client_def celix_earpmc_msgPoolInit_def)
  have d: "\<not> connected (new_client 1 1)" by (simp add: new_client_def)
  have q: "CELIX_EARPM_QOS_AT_LEAST_ONCE > CELIX_EARPM_QOS_AT_MOST_ONCE
           \<and> \<not> CELIX_EARPM_QOS_AT_LEAST_ONCE \<le> CELIX_EARPM_QOS_AT_MOST_ONCE"
    by (simp add: qos_defs)
  show ?thesis
    using capacity_one_admits_no_low_message [OF h, of env_ok "''t''" None 0
            CELIX_EARPM_QOS_AT_LEAST_ONCE None "[(CELIX_SUCCESS, \<lambda>c. c), (ETIMEDOUT, \<lambda>c. c)]" 2048 1]
      capacity_one_admits_no_low_message [OF h, of env_ok "''t''" None 0
            CELIX_EARPM_QOS_AT_LEAST_ONCE None "[(CELIX_SUCCESS, \<lambda>c. c)]" 2048 1]
      capacity_one_admits_no_low_message [OF h, of env_ok "''t''" None 0
            CELIX_EARPM_QOS_AT_MOST_ONCE None "[]" 2048 1]
      h d q
    by simp
qed

text \<open>
  C10 as stated fails for the asynchronous publish with QoS 0 on a disconnected client: it
  is rejected by the connectivity check, with \<^verbatim>\<open>ENOTCONN\<close>, not with the resource error.
\<close>

theorem capacity_one_async_qos0_disconnected_counterexample:
  "cap (freeMsgPool (new_client 1 1)) = 1 \<and> \<not> connected (new_client 1 1)
   \<and> fst (celix_earpmc_publishAsync env_ok (new_client 1 1) ''t'' None 0
            CELIX_EARPM_QOS_AT_MOST_ONCE None CELIX_EARPMC_MSG_PRI_LOW) = ENOTCONN
   \<and> fst (celix_earpmc_publishAsync env_ok (new_client 1 1) ''t'' None 0
            CELIX_EARPM_QOS_AT_MOST_ONCE None CELIX_EARPMC_MSG_PRI_LOW) \<noteq> ENOMEM"
  by (simp add: new_client_def celix_earpmc_msgPoolInit_def celix_earpmc_publishAsync_def qos_defs)

subsection \<open>The payload of a queued message\<close>

text \<open>
  C1 says that a publish that is routed to the waiting queue keeps the caller's payload, so
  that the drained message is sent with the same bytes and length. The code does not do
  that: \<^verbatim>\<open>celix_earpmc_fillMessagePayload\<close> guards the copy with the \<^verbatim>\<open>payloadSize\<close> field
  of the message, which \<^verbatim>\<open>celix_earpmc_messageCreate\<close> has just set to 0. On a
  disconnected client the publish of \<^verbatim>\<open>hello\<close> succeeds, the queued message has no payload
  and length 0, and the connect callback sends it empty; the same publish on a connected
  client sends the five bytes.
\<close>

theorem queued_payload_is_not_copied:
  "\<not> connected (new_client 10 5)
   \<and> fst (celix_earpmc_publishAsync env_ok (new_client 10 5) ''t'' (Some ''hello'') 5
            CELIX_EARPM_QOS_AT_LEAST_ONCE None CELIX_EARPMC_MSG_PRI_LOW) = CELIX_SUCCESS
   \<and> waitingMessages client_queued_hello = [0]
   \<and> payload (msg_at client_queued_hello 0) = None
   \<and> payloadSize (msg_at client_queued_hello 0) = 0
   \<and> mosq (celix_earpmc_connectCallback env_ok client_queued_hello MQTT_RC_SUCCESS)
       = [Publish ''t'' 0 None CELIX_EARPM_QOS_AT_LEAST_ONCE None]
   \<and> mosq (snd (celix_earpmc_publishAsync env_ok client_connected ''t'' (Some ''hello'') 5
                  CELIX_EARPM_QOS_AT_LEAST_ONCE None CELIX_EARPMC_MSG_PRI_LOW))
       = [Publish ''t'' 5 (Some ''hello'') CELIX_EARPM_QOS_AT_LEAST_ONCE None]"
  by code_simp

subsection \<open>The clean-up after a failed synchronous wait\<close>

text \<open>
  C2 says that after a failed wait the message is removed from whichever structure holds it.
  \<^verbatim>\<open>celix_earpmc_deleteMsgFromQueue\<close> looks it up in the published map under its
  transport message id, while that map is keyed by sequence numbers. First run: the
  acknowledgement arrives while the wait times out, the message (sequence number 0, message
  id 1) is in the published map and is not found there, and the code ends in
  \<^verbatim>\<open>TAILQ_REMOVE\<close> of a message that is not in the queue. Second run: another synchronous
  message with sequence number 1 completes meanwhile; the clean-up removes that one from the
  published map and the timed-out message stays in the publishing map. Third run, for
  comparison: nothing happens meanwhile, and the message is removed and its block freed.
\<close>

theorem sync_timeout_cleanup_misses_published_message:
  "(case celix_earpmc_publishSync env_ok client_connected ''t'' (Some ''x'') 1
             CELIX_EARPM_QOS_AT_LEAST_ONCE None [(ETIMEDOUT, ack_arrives)] of
         Returns r \<Rightarrow> False
       | Blocked \<Rightarrow> False
       | Undefined \<Rightarrow> True)
   \<and> (case celix_earpmc_publishSync env_ok client_connected ''t'' (Some ''x'') 1
             CELIX_EARPM_QOS_AT_LEAST_ONCE None [(ETIMEDOUT, other_sync_publish_completes)] of
         Returns (st, c) \<Rightarrow>
           st = ETIMEDOUT \<and> seqNr (msg_at c 0) = 0 \<and> mqttMid (msg_at c 0) = 1
           \<and> seqNr (msg_at c 1) = 1
           \<and> publishingMessages c = [(1, 0)] \<and> publishedMessages c = []
           \<and> usedSize (freeMsgPool c) = 2
       | Blocked \<Rightarrow> False
       | Undefined \<Rightarrow> False)
   \<and> (case celix_earpmc_publishSync env_ok client_connected ''t'' (Some ''x'') 1
             CELIX_EARPM_QOS_AT_LEAST_ONCE None [(ETIMEDOUT, \<lambda>c. c)] of
         Returns (st, c) \<Rightarrow>
           st = ETIMEDOUT \<and> publishingMessages c = [] \<and> publishedMessages c = []
           \<and> waitingMessages c = [] \<and> usedSize (freeMsgPool c) = 0
       | Blocked \<Rightarrow> False
       | Undefined \<Rightarrow> False)"
  by code_simp

subsection \<open>The order of the waiting queue\<close>

lemma insertFromTail_takeWhile:
  "insertFromTail blocks p ys =
     takeWhile (\<lambda>x. pri_rank (pri (blocks x)) < pri_rank (pri (blocks p))) ys
       @ p # dropWhile (\<lambda>x. pri_rank (pri (blocks x)) < pri_rank (pri (blocks p))) ys"
  by (induction ys) auto

lemma takeWhile_filter_ascending:
  "sorted_wrt (\<lambda>a b. f a \<le> f b) ys \<Longrightarrow> takeWhile (\<lambda>x. f x < (r::nat)) ys = filter (\<lambda>x. f x < r) ys"
proof (induction ys)
  case Nil
  show ?case by simp
next
  case (Cons y ys)
  show ?case
  proof (cases "f y < r")
    case True
    then show ?thesis using Cons by simp
  next
    case False
    then have "\<forall>x \<in> set ys. \<not> f x < r" using Cons.prems by auto
    then have "filter (\<lambda>x. f x < r) ys = []" by (simp add: filter_empty_conv)
    then show ?thesis using False by simp
  qed
qed

lemma dropWhile_filter_ascending:
  "sorted_wrt (\<lambda>a b. f a \<le> f b) ys \<Longrightarrow> dropWhile (\<lambda>x. f x < (r::nat)) ys = filter (\<lambda>x. \<not> f x < r) ys"
proof (induction ys)
  case Nil
  show ?case by simp
next
  case (Cons y ys)
  show ?case
  proof (cases "f y < r")
    case True
    then show ?thesis using Cons by simp
  next
    case False
    then have "\<forall>x \<in> set ys. \<not> f x < r" using Cons.prems by auto
    then have "filter (\<lambda>x. \<not> f x < r) ys = ys" by (simp add: filter_id_conv)
    then show ?thesis using False by simp
  qed
qed

lemma sorted_wrt_rev_swap:
  "sorted_wrt (\<lambda>a b. f b \<le> f a) q \<Longrightarrow> sorted_wrt (\<lambda>a b. f a \<le> (f b :: nat)) (rev q)"
  by (simp add: sorted_wrt_rev)

lemma enqueue_waiting:
  assumes "sorted_wrt (\<lambda>a b. msg_rank c b \<le> msg_rank c a) (waitingMessages c)"
  shows "waitingMessages (celix_earpmc_enqueueMsgToWaitingQueue c p) =
           filter (\<lambda>x. msg_rank c p \<le> msg_rank c x) (waitingMessages c)
             @ p # filter (\<lambda>x. msg_rank c x < msg_rank c p) (waitingMessages c)"
proof -
  let ?f = "msg_rank c"
  have asc: "sorted_wrt (\<lambda>a b. ?f a \<le> ?f b) (rev (waitingMessages c))"
    using assms by (rule sorted_wrt_rev_swap)
  have "insertFromTail (msg_at c) p (rev (waitingMessages c)) =
          takeWhile (\<lambda>x. ?f x < ?f p) (rev (waitingMessages c))
            @ p # dropWhile (\<lambda>x. ?f x < ?f p) (rev (waitingMessages c))"
    by (simp add: insertFromTail_takeWhile msg_rank_def)
  also have "\<dots> = filter (\<lambda>x. ?f x < ?f p) (rev (waitingMessages c))
            @ p # filter (\<lambda>x. \<not> ?f x < ?f p) (rev (waitingMessages c))"
    by (simp add: takeWhile_filter_ascending [OF asc] dropWhile_filter_ascending [OF asc])
  finally have "rev (insertFromTail (msg_at c) p (rev (waitingMessages c))) =
      filter (\<lambda>x. \<not> ?f x < ?f p) (waitingMessages c) @ p # filter (\<lambda>x. ?f x < ?f p) (waitingMessages c)"
    by (simp add: rev_filter)
  then show ?thesis
    by (simp add: celix_earpmc_enqueueMsgToWaitingQueue_def not_less)
qed

lemma enqueue_rank [simp]:
  "msg_rank (celix_earpmc_enqueueMsgToWaitingQueue c p) x = msg_rank c x"
  by (simp add: celix_earpmc_enqueueMsgToWaitingQueue_def msg_rank_def)

lemma enqueue_sorted:
  assumes "sorted_wrt (\<lambda>a b. msg_rank c b \<le> msg_rank c a) (waitingMessages c)"
  shows "sorted_wrt (\<lambda>a b. msg_rank (celix_earpmc_enqueueMsgToWaitingQueue c p) b
                           \<le> msg_rank (celix_earpmc_enqueueMsgToWaitingQueue c p) a)
           (waitingMessages (celix_earpmc_enqueueMsgToWaitingQueue c p))"
proof -
  have f1: "sorted_wrt (\<lambda>a b. msg_rank c b \<le> msg_rank c a)
              (filter (\<lambda>x. msg_rank c p \<le> msg_rank c x) (waitingMessages c))"
    using assms by (rule sorted_wrt_filter)
  have f2: "sorted_wrt (\<lambda>a b. msg_rank c b \<le> msg_rank c a)
              (filter (\<lambda>x. msg_rank c x < msg_rank c p) (waitingMessages c))"
    using assms by (rule sorted_wrt_filter)
  show ?thesis
    using f1 f2 by (auto simp: enqueue_waiting [OF assms] sorted_wrt_append)
qed

lemma update_values: "snd ` set (AList.update k v al) \<subseteq> insert v (snd ` set al)"
  by (induction al) auto

lemma length_update_le: "length (AList.update k v al) \<le> Suc (length al)"
  by (induction al) auto

lemma map_of_value: "map_of al k = Some v \<Longrightarrow> v \<in> snd ` set al"
  by (metis map_of_SomeD snd_conv image_eqI)

lemma msg_at_release_other [simp]:
  "x \<noteq> p \<Longrightarrow> msg_at (celix_earpmc_messageRelease c p) x = msg_at c x"
  by (simp add: celix_earpmc_messageRelease_def Let_def)

lemma publishingMessages_put_facts:
  "snd ` set (publishingMessages (snd (publishingMessages_put E c k p)))
     \<subseteq> insert p (snd ` set (publishingMessages c))"
  "length (publishingMessages (snd (publishingMessages_put E c k p)))
     \<le> Suc (length (publishingMessages c))"
  "publishedMessages (snd (publishingMessages_put E c k p)) = publishedMessages c"
  "x \<notin> snd ` set (publishingMessages c) \<Longrightarrow>
     msg_at (snd (publishingMessages_put E c k p)) x = msg_at c x"
proof -
  show "snd ` set (publishingMessages (snd (publishingMessages_put E c k p)))
     \<subseteq> insert p (snd ` set (publishingMessages c))"
    using update_values [of k p "publishingMessages c"]
    by (auto simp: publishingMessages_put_def split: option.splits)
  show "length (publishingMessages (snd (publishingMessages_put E c k p)))
     \<le> Suc (length (publishingMessages c))"
    using length_update_le [of k p "publishingMessages c"]
    by (auto simp: publishingMessages_put_def split: option.splits)
  show "publishedMessages (snd (publishingMessages_put E c k p)) = publishedMessages c"
    by (auto simp: publishingMessages_put_def split: option.splits)
  show "msg_at (snd (publishingMessages_put E c k p)) x = msg_at c x"
    if x: "x \<notin> snd ` set (publishingMessages c)"
  proof (cases "map_of (publishingMessages c) k")
    case None
    then show ?thesis by (simp add: publishingMessages_put_def)
  next
    case (Some old)
    then have "x \<noteq> old" using x map_of_value by fastforce
    then show ?thesis using Some by (simp add: publishingMessages_put_def)
  qed
qed

lemma publishedMessages_put_facts:
  "snd ` set (publishedMessages (snd (publishedMessages_put E c k p)))
     \<subseteq> insert p (snd ` set (publishedMessages c))"
  "publishingMessages (snd (publishedMessages_put E c k p)) = publishingMessages c"
  "x \<notin> snd ` set (publishedMessages c) \<Longrightarrow>
     msg_at (snd (publishedMessages_put E c k p)) x = msg_at c x"
proof -
  show "snd ` set (publishedMessages (snd (publishedMessages_put E c k p)))
     \<subseteq> insert p (snd ` set (publishedMessages c))"
    using update_values [of k p "publishedMessages c"]
    by (auto simp: publishedMessages_put_def split: option.splits)
  show "publishingMessages (snd (publishedMessages_put E c k p)) = publishingMessages c"
    by (auto simp: publishedMessages_put_def split: option.splits)
  show "msg_at (snd (publishedMessages_put E c k p)) x = msg_at c x"
    if x: "x \<notin> snd ` set (publishedMessages c)"
  proof (cases "map_of (publishedMessages c) k")
    case None
    then show ?thesis by (simp add: publishedMessages_put_def)
  next
    case (Some old)
    then have "x \<noteq> old" using x map_of_value by fastforce
    then show ?thesis using Some by (simp add: publishedMessages_put_def)
  qed
qed

lemma publishMessage_facts:
  "snd ` set (publishingMessages (snd (celix_earpmc_publishMessage E c p pl n pr)))
     \<subseteq> insert p (snd ` set (publishingMessages c))"
  "length (publishingMessages (snd (celix_earpmc_publishMessage E c p pl n pr)))
     \<le> Suc (length (publishingMessages c))"
  "x \<noteq> p \<Longrightarrow> x \<notin> snd ` set (publishingMessages c) \<Longrightarrow>
     msg_at (snd (celix_earpmc_publishMessage E c p pl n pr)) x = msg_at c x"
proof -
  let ?c1 = "snd (mosquitto_publish_v5 E c (topic (msg_at c p)) (sint (word_of_nat n :: 32 word))
              pl (qos (msg_at c p)) pr)"
  let ?mid = "wire_mid E (length (mosq c))"
  let ?c2 = "upd_msg p (\<lambda>m. m\<lparr>mqttMid := ?mid\<rparr>) ?c1"
  let ?r = "snd (celix_earpmc_publishMessage E c p pl n pr)"
  have pm: "publishingMessages ?c2 = publishingMessages c"
    by (simp add: mosquitto_publish_v5_def)
  have c1: "publishingMessages ?c1 = publishingMessages c" "msg_at ?c1 = msg_at c"
    by (simp_all add: mosquitto_publish_v5_def)
  have c2: "\<And>y. y \<noteq> p \<Longrightarrow> msg_at ?c2 y = msg_at c y" using c1 by simp
  have "?r = ?c1 \<or> ?r = snd (publishingMessages_put E ?c2 ?mid p)
      \<or> ?r = celix_earpmc_messageRetain (snd (publishingMessages_put E ?c2 ?mid p)) p"
    by (auto simp: celix_earpmc_publishMessage_def mosquitto_publish_v5_def Let_def
          case_prod_unfold)
  then consider (fail) "?r = ?c1"
    | (nomem) "?r = snd (publishingMessages_put E ?c2 ?mid p)"
    | (ok) "?r = celix_earpmc_messageRetain (snd (publishingMessages_put E ?c2 ?mid p)) p"
    by blast
  note cs = this
  show "snd ` set (publishingMessages ?r) \<subseteq> insert p (snd ` set (publishingMessages c))"
  proof (cases rule: cs)
    case fail
    then show ?thesis using c1 by auto
  next
    case nomem
    then show ?thesis using publishingMessages_put_facts(1) [of E ?c2 ?mid p] pm by simp
  next
    case ok
    then show ?thesis using publishingMessages_put_facts(1) [of E ?c2 ?mid p] pm by simp
  qed
  show "length (publishingMessages ?r) \<le> Suc (length (publishingMessages c))"
  proof (cases rule: cs)
    case fail
    then show ?thesis using c1 by auto
  next
    case nomem
    then show ?thesis using publishingMessages_put_facts(2) [of E ?c2 ?mid p] pm by simp
  next
    case ok
    then show ?thesis using publishingMessages_put_facts(2) [of E ?c2 ?mid p] pm by simp
  qed
  show "msg_at ?r x = msg_at c x" if x: "x \<noteq> p" "x \<notin> snd ` set (publishingMessages c)"
  proof (cases rule: cs)
    case fail
    then show ?thesis using c1 by auto
  next
    case nomem
    then show ?thesis
      using publishingMessages_put_facts(4) [of x ?c2 E ?mid p] pm x c2 by simp
  next
    case ok
    then show ?thesis
      using publishingMessages_put_facts(4) [of x ?c2 E ?mid p] pm x c2 by simp
  qed
qed

lemma enqueuePublished_facts:
  "snd ` set (publishedMessages (celix_earpmc_enqueueMsgToPublishedQueue E c p e))
     \<subseteq> insert p (snd ` set (publishedMessages c))"
  "x \<noteq> p \<Longrightarrow> x \<notin> snd ` set (publishedMessages c) \<Longrightarrow>
     msg_at (celix_earpmc_enqueueMsgToPublishedQueue E c p e) x = msg_at c x"
proof -
  let ?c1 = "upd_msg p (\<lambda>m. m\<lparr>error := e\<rparr>) c"
  let ?k = "seqNr (msg_at ?c1 p)"
  let ?r = "celix_earpmc_enqueueMsgToPublishedQueue E c p e"
  have "?r = c \<or> ?r = snd (publishedMessages_put E ?c1 ?k p)
      \<or> ?r = celix_earpmc_messageRetain (snd (publishedMessages_put E ?c1 ?k p)) p"
    by (auto simp: celix_earpmc_enqueueMsgToPublishedQueue_def Let_def case_prod_unfold)
  then consider (async) "?r = c"
    | (nomem) "?r = snd (publishedMessages_put E ?c1 ?k p)"
    | (ok) "?r = celix_earpmc_messageRetain (snd (publishedMessages_put E ?c1 ?k p)) p"
    by blast
  note cs = this
  have pd: "publishedMessages ?c1 = publishedMessages c" by simp
  have c1: "\<And>y. y \<noteq> p \<Longrightarrow> msg_at ?c1 y = msg_at c y" by simp
  show "snd ` set (publishedMessages ?r) \<subseteq> insert p (snd ` set (publishedMessages c))"
  proof (cases rule: cs)
    case async
    then show ?thesis by auto
  next
    case nomem
    then show ?thesis using publishedMessages_put_facts(1) [of E ?c1 ?k p] pd by simp
  next
    case ok
    then show ?thesis using publishedMessages_put_facts(1) [of E ?c1 ?k p] pd by simp
  qed
  show "msg_at ?r x = msg_at c x" if x: "x \<noteq> p" "x \<notin> snd ` set (publishedMessages c)"
  proof (cases rule: cs)
    case async
    then show ?thesis by simp
  next
    case nomem
    then show ?thesis using publishedMessages_put_facts(3) [of x ?c1 E ?k p] pd x c1 by simp
  next
    case ok
    then show ?thesis using publishedMessages_put_facts(3) [of x ?c1 E ?k p] pd x c1 by simp
  qed
qed


lemma releaseWaiting_body_facts:
  "publishingMessages (releaseWaiting_body E c cur)
     = publishingMessages (snd (celix_earpmc_publishMessage E c cur (payload (msg_at c cur))
              (payloadSize (msg_at c cur)) (mqttProps (msg_at c cur))))"
  "snd ` set (publishedMessages (releaseWaiting_body E c cur))
     \<subseteq> insert cur (snd ` set (publishedMessages c))"
  "x \<noteq> cur \<Longrightarrow> x \<notin> snd ` set (publishingMessages c) \<Longrightarrow>
   x \<notin> snd ` set (publishedMessages c) \<Longrightarrow>
     msg_at (releaseWaiting_body E c cur) x = msg_at c x"
  "mosq (releaseWaiting_body E c cur) = mosq c @ [publish_call_of c cur]"
proof -
  let ?pm = "celix_earpmc_publishMessage E c cur (payload (msg_at c cur))
              (payloadSize (msg_at c cur)) (mqttProps (msg_at c cur))"
  let ?c2 = "if fst ?pm \<noteq> CELIX_SUCCESS
             then celix_earpmc_enqueueMsgToPublishedQueue E (snd ?pm) cur (fst ?pm) else snd ?pm"
  have body: "releaseWaiting_body E c cur =
      celix_earpmc_messageRelease (?c2\<lparr>waitingMessages := remove1 cur (waitingMessages ?c2)\<rparr>) cur"
    by (simp add: releaseWaiting_body_def Let_def case_prod_unfold)
  show "publishingMessages (releaseWaiting_body E c cur) = publishingMessages (snd ?pm)"
    by (simp add: body)
  have "snd ` set (publishedMessages ?c2) \<subseteq> insert cur (snd ` set (publishedMessages c))"
    using enqueuePublished_facts(1) [of E "snd ?pm" cur "fst ?pm"] by auto
  then show "snd ` set (publishedMessages (releaseWaiting_body E c cur))
     \<subseteq> insert cur (snd ` set (publishedMessages c))"
    by (simp add: body)
  show "msg_at (releaseWaiting_body E c cur) x = msg_at c x"
    if x: "x \<noteq> cur" "x \<notin> snd ` set (publishingMessages c)"
      "x \<notin> snd ` set (publishedMessages c)"
  proof -
    have a: "msg_at (snd ?pm) x = msg_at c x"
      using x by (simp add: publishMessage_facts(3))
    have "msg_at ?c2 x = msg_at (snd ?pm) x"
      using x enqueuePublished_facts(2) [of x cur "snd ?pm" E "fst ?pm"] by simp
    then show ?thesis using a x by (simp add: body)
  qed
  show "mosq (releaseWaiting_body E c cur) = mosq c @ [publish_call_of c cur]"
    by (simp add: publish_call_of_def)
qed

lemma not_full_below_cap:
  fixes w :: "64 word"
  assumes "n < unat w"
  shows "\<not> word_of_nat n \<ge> w"
proof -
  have "unat w < 2 ^ 64" using unsigned_less [of w] by simp
  then have "unat (word_of_nat n :: 64 word) = n" using assms by (simp add: unat_of_nat)
  then show ?thesis using assms by (simp add: word_le_nat_alt)
qed

lemma releaseWaiting_loop_order:
  assumes "waitingMessages c = ps" and "distinct ps"
    and "set ps \<inter> snd ` set (publishingMessages c) = {}"
    and "set ps \<inter> snd ` set (publishedMessages c) = {}"
  shows "\<exists>k \<le> length ps.
           mosq (releaseWaiting_loop E ps c) = mosq c @ map (publish_call_of c) (take k ps)
         \<and> waitingMessages (releaseWaiting_loop E ps c) = drop k ps
         \<and> (length (publishingMessages c) + length ps \<le> unat (parallelMsgCap c) \<longrightarrow> k = length ps)"
  using assms
proof (induction ps arbitrary: c)
  case Nil
  then show ?case by simp
next
  case (Cons cur rest)
  show ?case
  proof (cases "celix_earpmc_isPublishingQueueFull c")
    case True
    have "\<not> length (publishingMessages c) + length (cur # rest) \<le> unat (parallelMsgCap c)"
    proof
      assume "length (publishingMessages c) + length (cur # rest) \<le> unat (parallelMsgCap c)"
      then have "length (publishingMessages c) < unat (parallelMsgCap c)" by simp
      then show False
        using True not_full_below_cap by (simp add: celix_earpmc_isPublishingQueueFull_def)
    qed
    then have "0 \<le> length (cur # rest)
         \<and> mosq (releaseWaiting_loop E (cur # rest) c) = mosq c @ map (publish_call_of c) (take 0 (cur # rest))
         \<and> waitingMessages (releaseWaiting_loop E (cur # rest) c) = drop 0 (cur # rest)
         \<and> (length (publishingMessages c) + length (cur # rest) \<le> unat (parallelMsgCap c)
              \<longrightarrow> 0 = length (cur # rest))"
      using True Cons.prems(1) by simp
    then show ?thesis by blast
  next
    case False
    let ?c' = "releaseWaiting_body E c cur"
    have w: "waitingMessages ?c' = rest" using Cons.prems(1) by simp
    have d: "distinct rest" and cur: "cur \<notin> set rest" using Cons.prems(2) by simp_all
    have pm: "snd ` set (publishingMessages ?c') \<subseteq> insert cur (snd ` set (publishingMessages c))"
      by (simp add: releaseWaiting_body_facts(1) publishMessage_facts(1))
    have pl: "length (publishingMessages ?c') \<le> Suc (length (publishingMessages c))"
      by (simp add: releaseWaiting_body_facts(1) publishMessage_facts(2))
    have pd: "snd ` set (publishedMessages ?c') \<subseteq> insert cur (snd ` set (publishedMessages c))"
      by (rule releaseWaiting_body_facts(2))
    have i1: "set rest \<inter> snd ` set (publishingMessages ?c') = {}"
      using pm cur Cons.prems(3) by auto
    have i2: "set rest \<inter> snd ` set (publishedMessages ?c') = {}"
      using pd cur Cons.prems(4) by auto
    from Cons.IH [OF w d i1 i2]
    obtain k where k: "k \<le> length rest"
      and m: "mosq (releaseWaiting_loop E rest ?c') = mosq ?c' @ map (publish_call_of ?c') (take k rest)"
      and wq: "waitingMessages (releaseWaiting_loop E rest ?c') = drop k rest"
      and full: "length (publishingMessages ?c') + length rest \<le> unat (parallelMsgCap ?c')
                  \<longrightarrow> k = length rest"
      by blast
    have same: "\<And>x. x \<in> set rest \<Longrightarrow> publish_call_of ?c' x = publish_call_of c x"
    proof -
      fix x assume x: "x \<in> set rest"
      then have "x \<noteq> cur" using cur by auto
      moreover have "x \<notin> snd ` set (publishingMessages c)" using x Cons.prems(3) by auto
      moreover have "x \<notin> snd ` set (publishedMessages c)" using x Cons.prems(4) by auto
      ultimately have "msg_at ?c' x = msg_at c x" by (rule releaseWaiting_body_facts(3))
      then show "publish_call_of ?c' x = publish_call_of c x" by (simp add: publish_call_of_def)
    qed
    have mp: "map (publish_call_of ?c') (take k rest) = map (publish_call_of c) (take k rest)"
      using same by (auto dest: in_set_takeD)
    have step: "releaseWaiting_loop E (cur # rest) c = releaseWaiting_loop E rest ?c'"
      using False by simp
    have "Suc k \<le> length (cur # rest)" using k by simp
    moreover have "mosq (releaseWaiting_loop E (cur # rest) c)
                     = mosq c @ map (publish_call_of c) (take (Suc k) (cur # rest))"
    proof -
      have "mosq (releaseWaiting_loop E (cur # rest) c)
              = mosq ?c' @ map (publish_call_of c) (take k rest)"
        by (simp only: step m mp)
      also have "mosq ?c' = mosq c @ [publish_call_of c cur]"
        by (rule releaseWaiting_body_facts(4))
      finally show ?thesis by simp
    qed
    moreover have "waitingMessages (releaseWaiting_loop E (cur # rest) c) = drop (Suc k) (cur # rest)"
      by (simp only: step wq drop_Suc_Cons)
    moreover have "length (publishingMessages c) + length (cur # rest) \<le> unat (parallelMsgCap c)
                     \<longrightarrow> Suc k = length (cur # rest)"
      using full pl by auto
    ultimately show ?thesis by blast
  qed
qed

text \<open>
  C6. Insertion into a waiting queue that is ordered by priority class puts the new message
  behind every message of its own or a higher class and in front of every message of a
  lower class, without moving the others, and the queue stays ordered. Draining publishes
  the messages of a prefix of the queue, head first, and removes them; when the parallel
  capacity suffices for the whole queue, all of it. (The queue holds each message once and
  no message that is also in the publishing or the published map.) For A (LOW), B (HIGH),
  C (LOW) published in that order while disconnected, the connect callback sends B, A, C.
\<close>

theorem waiting_queue_priority_fifo_and_drain_order:
  "(sorted_wrt (\<lambda>a b. msg_rank c b \<le> msg_rank c a) (waitingMessages c) \<longrightarrow>
      waitingMessages (celix_earpmc_enqueueMsgToWaitingQueue c p)
        = filter (\<lambda>x. msg_rank c p \<le> msg_rank c x) (waitingMessages c)
            @ p # filter (\<lambda>x. msg_rank c x < msg_rank c p) (waitingMessages c)
      \<and> sorted_wrt (\<lambda>a b. msg_rank (celix_earpmc_enqueueMsgToWaitingQueue c p) b
                              \<le> msg_rank (celix_earpmc_enqueueMsgToWaitingQueue c p) a)
            (waitingMessages (celix_earpmc_enqueueMsgToWaitingQueue c p)))
   \<and> (distinct (waitingMessages c)
        \<and> set (waitingMessages c) \<inter> snd ` set (publishingMessages c) = {}
        \<and> set (waitingMessages c) \<inter> snd ` set (publishedMessages c) = {} \<longrightarrow>
      (\<exists>k \<le> length (waitingMessages c).
          mosq (celix_earpmc_releaseWaitingMsgToPublishing E c)
            = mosq c @ map (publish_call_of c) (take k (waitingMessages c))
        \<and> waitingMessages (celix_earpmc_releaseWaitingMsgToPublishing E c)
            = drop k (waitingMessages c)
        \<and> (length (publishingMessages c) + length (waitingMessages c) \<le> unat (parallelMsgCap c)
             \<longrightarrow> k = length (waitingMessages c))))
   \<and> waitingMessages client_abc = [1, 0, 2]
   \<and> map (\<lambda>p. (topic (msg_at client_abc p), pri (msg_at client_abc p))) [0, 1, 2]
        = [(''A'', CELIX_EARPMC_MSG_PRI_LOW), (''B'', CELIX_EARPMC_MSG_PRI_HIGH),
           (''C'', CELIX_EARPMC_MSG_PRI_LOW)]
   \<and> mosq (celix_earpmc_connectCallback env_ok client_abc MQTT_RC_SUCCESS)
        = [Publish ''B'' 0 None CELIX_EARPM_QOS_AT_LEAST_ONCE None,
           Publish ''A'' 0 None CELIX_EARPM_QOS_AT_LEAST_ONCE None,
           Publish ''C'' 0 None CELIX_EARPM_QOS_AT_LEAST_ONCE None]"
proof -
  have ins: "sorted_wrt (\<lambda>a b. msg_rank c b \<le> msg_rank c a) (waitingMessages c) \<Longrightarrow>
      waitingMessages (celix_earpmc_enqueueMsgToWaitingQueue c p)
        = filter (\<lambda>x. msg_rank c p \<le> msg_rank c x) (waitingMessages c)
            @ p # filter (\<lambda>x. msg_rank c x < msg_rank c p) (waitingMessages c)
      \<and> sorted_wrt (\<lambda>a b. msg_rank (celix_earpmc_enqueueMsgToWaitingQueue c p) b
                              \<le> msg_rank (celix_earpmc_enqueueMsgToWaitingQueue c p) a)
            (waitingMessages (celix_earpmc_enqueueMsgToWaitingQueue c p))"
    using enqueue_waiting [of c p] enqueue_sorted [of c p] by blast
  have drain: "distinct (waitingMessages c)
        \<and> set (waitingMessages c) \<inter> snd ` set (publishingMessages c) = {}
        \<and> set (waitingMessages c) \<inter> snd ` set (publishedMessages c) = {} \<Longrightarrow>
      (\<exists>k \<le> length (waitingMessages c).
          mosq (celix_earpmc_releaseWaitingMsgToPublishing E c)
            = mosq c @ map (publish_call_of c) (take k (waitingMessages c))
        \<and> waitingMessages (celix_earpmc_releaseWaitingMsgToPublishing E c)
            = drop k (waitingMessages c)
        \<and> (length (publishingMessages c) + length (waitingMessages c) \<le> unat (parallelMsgCap c)
             \<longrightarrow> k = length (waitingMessages c)))"
    unfolding celix_earpmc_releaseWaitingMsgToPublishing_def
    using releaseWaiting_loop_order [of c "waitingMessages c" E] by blast
  have ex: "waitingMessages client_abc = [1, 0, 2]
   \<and> map (\<lambda>p. (topic (msg_at client_abc p), pri (msg_at client_abc p))) [0, 1, 2]
        = [(''A'', CELIX_EARPMC_MSG_PRI_LOW), (''B'', CELIX_EARPMC_MSG_PRI_HIGH),
           (''C'', CELIX_EARPMC_MSG_PRI_LOW)]
   \<and> mosq (celix_earpmc_connectCallback env_ok client_abc MQTT_RC_SUCCESS)
        = [Publish ''B'' 0 None CELIX_EARPM_QOS_AT_LEAST_ONCE None,
           Publish ''A'' 0 None CELIX_EARPM_QOS_AT_LEAST_ONCE None,
           Publish ''C'' 0 None CELIX_EARPM_QOS_AT_LEAST_ONCE None]"
    by code_simp
  from ins drain ex show ?thesis by blast
qed

theorem waiting_queue_priority_fifo_and_drain_order_witness:
  "sorted_wrt (\<lambda>a b. msg_rank client_abc b \<le> msg_rank client_abc a) (waitingMessages client_abc)
   \<and> distinct (waitingMessages client_abc)
   \<and> set (waitingMessages client_abc) \<inter> snd ` set (publishingMessages client_abc) = {}
   \<and> set (waitingMessages client_abc) \<inter> snd ` set (publishedMessages client_abc) = {}
   \<and> length (publishingMessages client_abc) + length (waitingMessages client_abc)
        \<le> unat (parallelMsgCap client_abc)
   \<and> waitingMessages (celix_earpmc_enqueueMsgToWaitingQueue client_abc 3) = [1, 0, 2, 3]
   \<and> mosq (celix_earpmc_releaseWaitingMsgToPublishing env_ok client_abc)
        = mosq client_abc @ map (publish_call_of client_abc) [1, 0, 2]
   \<and> waitingMessages (celix_earpmc_releaseWaitingMsgToPublishing env_ok client_abc) = []"
proof -
  have w: "waitingMessages client_abc = [1, 0, 2]" by code_simp
  have r: "msg_rank client_abc 0 = 0" "msg_rank client_abc 1 = 2" "msg_rank client_abc 2 = 0"
    "msg_rank client_abc 3 = 0" by code_simp+
  have e: "publishingMessages client_abc = []" "publishedMessages client_abc = []"
    "unat (parallelMsgCap client_abc) = 5" by code_simp+
  have h1: "sorted_wrt (\<lambda>a b. msg_rank client_abc b \<le> msg_rank client_abc a)
              (waitingMessages client_abc)"
    by (simp add: w r)
  have h2: "distinct (waitingMessages client_abc)
        \<and> set (waitingMessages client_abc) \<inter> snd ` set (publishingMessages client_abc) = {}
        \<and> set (waitingMessages client_abc) \<inter> snd ` set (publishedMessages client_abc) = {}"
    by (simp add: w e)
  have h3: "length (publishingMessages client_abc) + length (waitingMessages client_abc)
              \<le> unat (parallelMsgCap client_abc)"
    by (simp add: w e)
  show ?thesis
    using waiting_queue_priority_fifo_and_drain_order [of client_abc 3 env_ok] h1 h2 h3
    by (auto simp: w r e)
qed

subsection \<open>The disconnect callback\<close>

lemma release_static [simp]:
  "qos (msg_at (celix_earpmc_messageRelease c p) x) = qos (msg_at c x)"
  "sync (msg_at (celix_earpmc_messageRelease c p) x) = sync (msg_at c x)"
  "seqNr (msg_at (celix_earpmc_messageRelease c p) x) = seqNr (msg_at c x)"
  "error (msg_at (celix_earpmc_messageRelease c p) x) = error (msg_at c x)"
  by (simp_all add: msg_at_release)

lemma publishedMessages_put_static [simp]:
  "qos (msg_at (snd (publishedMessages_put E c k p)) x) = qos (msg_at c x)"
  "sync (msg_at (snd (publishedMessages_put E c k p)) x) = sync (msg_at c x)"
  "seqNr (msg_at (snd (publishedMessages_put E c k p)) x) = seqNr (msg_at c x)"
  by (simp_all add: publishedMessages_put_def split: option.splits)

lemma enqueuePublished_static [simp]:
  "qos (msg_at (celix_earpmc_enqueueMsgToPublishedQueue E c p e) x) = qos (msg_at c x)"
  "sync (msg_at (celix_earpmc_enqueueMsgToPublishedQueue E c p e) x) = sync (msg_at c x)"
  "seqNr (msg_at (celix_earpmc_enqueueMsgToPublishedQueue E c p e) x) = seqNr (msg_at c x)"
  by (simp_all add: celix_earpmc_enqueueMsgToPublishedQueue_def Let_def case_prod_unfold)

lemma publishingMessages_remove_static [simp]:
  "qos (msg_at (snd (publishingMessages_remove c k)) x) = qos (msg_at c x)"
  "sync (msg_at (snd (publishingMessages_remove c k)) x) = sync (msg_at c x)"
  "seqNr (msg_at (snd (publishingMessages_remove c k)) x) = seqNr (msg_at c x)"
  by (simp_all add: publishingMessages_remove_def split: option.splits)

lemma publishingMessages_remove_frame [simp]:
  "waitingMessages (snd (publishingMessages_remove c k)) = waitingMessages c"
  "publishedMessages (snd (publishingMessages_remove c k)) = publishedMessages c"
  "connected (snd (publishingMessages_remove c k)) = connected c"
  "publishingMessages (snd (publishingMessages_remove c k)) = AList.delete k (publishingMessages c)"
  by (auto simp: publishingMessages_remove_def split: option.splits dest: map_of_None_keys)

lemma is_qos0_step [simp]:
  "is_qos0 (celix_earpmc_messageRelease c p) = is_qos0 c"
  "is_qos0 (celix_earpmc_enqueueMsgToPublishedQueue E c p e) = is_qos0 c"
  "is_qos0 (snd (publishingMessages_remove c k)) = is_qos0 c"
  "is_qos0 (c\<lparr>waitingMessages := w\<rparr>) = is_qos0 c"
  "is_qos0 (c\<lparr>connected := b\<rparr>) = is_qos0 c"
  by (simp_all add: is_qos0_def fun_eq_iff)

lemma delete_middle:
  "distinct (map fst (kept @ (k, v) # es)) \<Longrightarrow> AList.delete k (kept @ (k, v) # es) = kept @ es"
  by (induction kept) (auto simp: AList.delete_eq filter_id_conv rev_image_eqI)

lemma dropQos0_publishing_loop_publishing:
  assumes "publishingMessages c = kept @ es" and "distinct (map fst (kept @ es))"
  shows "publishingMessages (dropQos0_publishing_loop E es c)
           = kept @ filter (\<lambda>e. \<not> is_qos0 c (snd e)) es"
  using assms
proof (induction es arbitrary: c kept)
  case Nil
  then show ?case by simp
next
  case (Cons e es)
  obtain mid p where e: "e = (mid, p)" by (cases e)
  show ?case
  proof (cases "is_qos0 c p")
    case True
    let ?c' = "snd (publishingMessages_remove
                     (celix_earpmc_enqueueMsgToPublishedQueue E c p CELIX_ILLEGAL_STATE) mid)"
    have pm: "publishingMessages ?c' = kept @ es"
      using Cons.prems e by (simp add: delete_middle)
    have d: "distinct (map fst (kept @ es))" using Cons.prems(2) by simp
    have "publishingMessages (dropQos0_publishing_loop E es ?c')
            = kept @ filter (\<lambda>e. \<not> is_qos0 ?c' (snd e)) es"
      by (rule Cons.IH [OF pm d])
    then show ?thesis using True e by (simp add: is_qos0_def [of c p])
  next
    case False
    have pm: "publishingMessages c = (kept @ [e]) @ es" using Cons.prems(1) by simp
    have d: "distinct (map fst ((kept @ [e]) @ es))" using Cons.prems(2) by simp
    have "publishingMessages (dropQos0_publishing_loop E es c)
            = (kept @ [e]) @ filter (\<lambda>e. \<not> is_qos0 c (snd e)) es"
      by (rule Cons.IH [OF pm d])
    then show ?thesis using False e by (simp add: is_qos0_def [of c p])
  qed
qed

lemma dropQos0_publishing_loop_frame [simp]:
  "waitingMessages (dropQos0_publishing_loop E es c) = waitingMessages c"
  "connected (dropQos0_publishing_loop E es c) = connected c"
  "is_qos0 (dropQos0_publishing_loop E es c) = is_qos0 c"
  by (induction E es c rule: dropQos0_publishing_loop.induct) simp_all

lemma dropQos0_waiting_loop_frame [simp]:
  "publishingMessages (dropQos0_waiting_loop E ps c) = publishingMessages c"
  "connected (dropQos0_waiting_loop E ps c) = connected c"
  "is_qos0 (dropQos0_waiting_loop E ps c) = is_qos0 c"
  by (induction E ps c rule: dropQos0_waiting_loop.induct) (simp_all add: Let_def)

lemma dropQos0_waiting_loop_waiting:
  assumes "waitingMessages c = kept @ ps" and "\<forall>x \<in> set kept. \<not> is_qos0 c x"
  shows "waitingMessages (dropQos0_waiting_loop E ps c) = kept @ filter (\<lambda>x. \<not> is_qos0 c x) ps"
  using assms
proof (induction ps arbitrary: c kept)
  case Nil
  then show ?case by simp
next
  case (Cons cur rest)
  show ?case
  proof (cases "is_qos0 c cur")
    case True
    let ?c1 = "celix_earpmc_enqueueMsgToPublishedQueue E c cur CELIX_ILLEGAL_STATE"
    let ?c' = "celix_earpmc_messageRelease
                 (?c1\<lparr>waitingMessages := remove1 cur (waitingMessages ?c1)\<rparr>) cur"
    have "cur \<notin> set kept" using True Cons.prems(2) by auto
    then have w: "waitingMessages ?c' = kept @ rest"
      using Cons.prems(1) by (simp add: remove1_append)
    have k: "\<forall>x \<in> set kept. \<not> is_qos0 ?c' x" using Cons.prems(2) by simp
    have "waitingMessages (dropQos0_waiting_loop E rest ?c')
            = kept @ filter (\<lambda>x. \<not> is_qos0 ?c' x) rest"
      by (rule Cons.IH [OF w k])
    then show ?thesis using True by (simp add: Let_def is_qos0_def [of c cur])
  next
    case False
    have w: "waitingMessages c = (kept @ [cur]) @ rest" using Cons.prems(1) by simp
    have k: "\<forall>x \<in> set (kept @ [cur]). \<not> is_qos0 c x" using Cons.prems(2) False by simp
    have "waitingMessages (dropQos0_waiting_loop E rest c)
            = (kept @ [cur]) @ filter (\<lambda>x. \<not> is_qos0 c x) rest"
      by (rule Cons.IH [OF w k])
    then show ?thesis using False by (simp add: is_qos0_def [of c cur])
  qed
qed

lemma disconnect_structures:
  "\<not> connected (celix_earpmc_disconnectCallback E c)"
  "waitingMessages (celix_earpmc_disconnectCallback E c)
     = filter (\<lambda>x. \<not> is_qos0 c x) (waitingMessages c)"
  "distinct (map fst (publishingMessages c)) \<Longrightarrow>
   publishingMessages (celix_earpmc_disconnectCallback E c)
     = filter (\<lambda>e. \<not> is_qos0 c (snd e)) (publishingMessages c)"
proof -
  let ?c0 = "c\<lparr>connected := False\<rparr>"
  let ?c1 = "dropQos0_publishing_loop E (publishingMessages ?c0) ?c0"
  have dc: "celix_earpmc_disconnectCallback E c = dropQos0_waiting_loop E (waitingMessages ?c1) ?c1"
    by (simp add: celix_earpmc_disconnectCallback_def celix_earpmc_dropQos0Messages_def Let_def)
  show "\<not> connected (celix_earpmc_disconnectCallback E c)" by (simp add: dc)
  have "waitingMessages (dropQos0_waiting_loop E (waitingMessages ?c1) ?c1)
          = [] @ filter (\<lambda>x. \<not> is_qos0 ?c1 x) (waitingMessages ?c1)"
    by (rule dropQos0_waiting_loop_waiting) simp_all
  then show "waitingMessages (celix_earpmc_disconnectCallback E c)
     = filter (\<lambda>x. \<not> is_qos0 c x) (waitingMessages c)"
    by (simp add: dc)
  show "publishingMessages (celix_earpmc_disconnectCallback E c)
     = filter (\<lambda>e. \<not> is_qos0 c (snd e)) (publishingMessages c)"
    if "distinct (map fst (publishingMessages c))"
  proof -
    have "publishingMessages ?c1 = [] @ filter (\<lambda>e. \<not> is_qos0 ?c0 (snd e)) (publishingMessages ?c0)"
      by (rule dropQos0_publishing_loop_publishing) (simp_all add: that)
    then show ?thesis by (simp add: dc)
  qed
qed

lemma recorded_simps [simp]:
  "recorded c [] = []"
  "recorded c (p # ps) =
     (if is_qos0 c p \<and> sync (msg_at c p) then (seqNr (msg_at c p), p) # recorded c ps
      else recorded c ps)"
  "recorded c (ps @ qs) = recorded c ps @ recorded c qs"
  by (simp_all add: recorded_def)

lemma recorded_cong:
  "is_qos0 c' = is_qos0 c \<Longrightarrow> (\<And>x. sync (msg_at c' x) = sync (msg_at c x)) \<Longrightarrow>
   (\<And>x. seqNr (msg_at c' x) = seqNr (msg_at c x)) \<Longrightarrow> recorded c' ps = recorded c ps"
  by (simp add: recorded_def)

lemma recorded_keys:
  "fst ` set (recorded c ps) = (\<lambda>p. seqNr (msg_at c p)) ` {p \<in> set ps. is_qos0 c p \<and> sync (msg_at c p)}"
  by (auto simp: recorded_def image_iff)

lemma enqueuePublished_async:
  "\<not> sync (msg_at c p) \<Longrightarrow> celix_earpmc_enqueueMsgToPublishedQueue E c p e = c"
  by (simp add: celix_earpmc_enqueueMsgToPublishedQueue_def)

lemma enqueuePublished_sync_fresh:
  assumes "sync (msg_at c p)" and "map_of (publishedMessages c) (seqNr (msg_at c p)) = None"
    and "mem_ok E (allocs c)"
  shows "publishedMessages (celix_earpmc_enqueueMsgToPublishedQueue E c p e)
           = publishedMessages c @ [(seqNr (msg_at c p), p)]"
    and "x \<noteq> p \<Longrightarrow> msg_at (celix_earpmc_enqueueMsgToPublishedQueue E c p e) x = msg_at c x"
    and "error (msg_at (celix_earpmc_enqueueMsgToPublishedQueue E c p e) p) = e"
  using assms
  by (simp_all add: celix_earpmc_enqueueMsgToPublishedQueue_def publishedMessages_put_def Let_def)

text \<open>The effect of dropping one message on the published map and on the blocks.\<close>

lemma drop_step:
  assumes "\<forall>n. mem_ok E n"
    and "sync (msg_at c p) \<longrightarrow> map_of (publishedMessages c) (seqNr (msg_at c p)) = None"
    and c1: "c1 = celix_earpmc_enqueueMsgToPublishedQueue E c p CELIX_ILLEGAL_STATE"
    and pd: "publishedMessages c2 = publishedMessages c1" and bl: "msg_at c2 = msg_at c1"
  shows "publishedMessages (celix_earpmc_messageRelease c2 p)
           = publishedMessages c @ (if sync (msg_at c p) then [(seqNr (msg_at c p), p)] else [])"
    and "x \<noteq> p \<Longrightarrow> msg_at (celix_earpmc_messageRelease c2 p) x = msg_at c x"
    and "sync (msg_at c p) \<Longrightarrow> error (msg_at (celix_earpmc_messageRelease c2 p) p) = CELIX_ILLEGAL_STATE"
proof -
  show "publishedMessages (celix_earpmc_messageRelease c2 p)
           = publishedMessages c @ (if sync (msg_at c p) then [(seqNr (msg_at c p), p)] else [])"
    using assms by (simp add: enqueuePublished_async enqueuePublished_sync_fresh(1))
  show "x \<noteq> p \<Longrightarrow> msg_at (celix_earpmc_messageRelease c2 p) x = msg_at c x"
    using assms
    by (cases "sync (msg_at c p)")
       (simp_all add: msg_at_release enqueuePublished_async enqueuePublished_sync_fresh(2))
  show "sync (msg_at c p) \<Longrightarrow> error (msg_at (celix_earpmc_messageRelease c2 p) p) = CELIX_ILLEGAL_STATE"
    using assms by (simp add: enqueuePublished_sync_fresh(3))
qed


lemma map_of_append_None:
  "map_of (al @ bl) k = None \<longleftrightarrow> map_of al k = None \<and> map_of bl k = None"
  by (simp add: map_add_None)

text \<open>
  How the result of dropping the first message and the result of the rest of a loop combine.
\<close>

lemma drop_effect_combine:
  assumes q: "is_qos0 c cur" and nin: "cur \<notin> set rest"
    and st: "is_qos0 c' = is_qos0 c" "\<And>x. sync (msg_at c' x) = sync (msg_at c x)"
            "\<And>x. seqNr (msg_at c' x) = seqNr (msg_at c x)"
    and p1: "publishedMessages c'
               = publishedMessages c @ (if sync (msg_at c cur) then [(seqNr (msg_at c cur), cur)] else [])"
    and b1: "\<And>x. x \<noteq> cur \<Longrightarrow> msg_at c' x = msg_at c x"
    and e1: "sync (msg_at c cur) \<Longrightarrow> error (msg_at c' cur) = CELIX_ILLEGAL_STATE"
    and ih: "publishedMessages f = publishedMessages c' @ recorded c' rest
           \<and> (\<forall>x. \<not> (x \<in> set rest \<and> is_qos0 c' x) \<longrightarrow> msg_at f x = msg_at c' x)
           \<and> (\<forall>p \<in> set rest. is_qos0 c' p \<and> sync (msg_at c' p) \<longrightarrow>
                 error (msg_at f p) = CELIX_ILLEGAL_STATE)"
  shows "publishedMessages f = publishedMessages c @ recorded c (cur # rest)
       \<and> (\<forall>x. \<not> (x \<in> set (cur # rest) \<and> is_qos0 c x) \<longrightarrow> msg_at f x = msg_at c x)
       \<and> (\<forall>p \<in> set (cur # rest). is_qos0 c p \<and> sync (msg_at c p) \<longrightarrow>
             error (msg_at f p) = CELIX_ILLEGAL_STATE)"
proof -
  have rc: "recorded c' rest = recorded c rest" using st by (rule recorded_cong)
  have a: "publishedMessages f = publishedMessages c @ recorded c (cur # rest)"
    using ih p1 rc q by simp
  have b: "\<forall>x. \<not> (x \<in> set (cur # rest) \<and> is_qos0 c x) \<longrightarrow> msg_at f x = msg_at c x"
  proof (intro allI impI)
    fix x assume x: "\<not> (x \<in> set (cur # rest) \<and> is_qos0 c x)"
    then have xc: "x \<noteq> cur" using q by auto
    have "\<not> (x \<in> set rest \<and> is_qos0 c' x)" using x st(1) by auto
    then have "msg_at f x = msg_at c' x" using ih by blast
    then show "msg_at f x = msg_at c x" using b1 [OF xc] by simp
  qed
  have c: "\<forall>p \<in> set (cur # rest). is_qos0 c p \<and> sync (msg_at c p) \<longrightarrow>
             error (msg_at f p) = CELIX_ILLEGAL_STATE"
  proof (intro ballI impI)
    fix p assume p: "p \<in> set (cur # rest)" and qs: "is_qos0 c p \<and> sync (msg_at c p)"
    show "error (msg_at f p) = CELIX_ILLEGAL_STATE"
    proof (cases "p = cur")
      case True
      have "\<not> (cur \<in> set rest \<and> is_qos0 c' cur)" using nin by simp
      then have "msg_at f cur = msg_at c' cur" using ih by blast
      then show ?thesis using True e1 qs by simp
    next
      case False
      then have "p \<in> set rest" using p by simp
      moreover have "is_qos0 c' p \<and> sync (msg_at c' p)" using qs st by simp
      ultimately show ?thesis using ih by blast
    qed
  qed
  from a b c show ?thesis by blast
qed

lemma dropQos0_waiting_loop_effect:
  assumes "\<forall>n. mem_ok E n" and "distinct ps" and "distinct (map fst (recorded c ps))"
    and "\<forall>k \<in> fst ` set (recorded c ps). map_of (publishedMessages c) k = None"
  shows "publishedMessages (dropQos0_waiting_loop E ps c) = publishedMessages c @ recorded c ps
       \<and> (\<forall>x. \<not> (x \<in> set ps \<and> is_qos0 c x) \<longrightarrow>
             msg_at (dropQos0_waiting_loop E ps c) x = msg_at c x)
       \<and> (\<forall>p \<in> set ps. is_qos0 c p \<and> sync (msg_at c p) \<longrightarrow>
             error (msg_at (dropQos0_waiting_loop E ps c) p) = CELIX_ILLEGAL_STATE)"
  using assms
proof (induction ps arbitrary: c)
  case Nil
  show ?case by simp
next
  case (Cons cur rest)
  show ?case
  proof (cases "is_qos0 c cur")
    case False
    have r: "recorded c (cur # rest) = recorded c rest" using False by simp
    have "publishedMessages (dropQos0_waiting_loop E rest c) = publishedMessages c @ recorded c rest
       \<and> (\<forall>x. \<not> (x \<in> set rest \<and> is_qos0 c x) \<longrightarrow>
             msg_at (dropQos0_waiting_loop E rest c) x = msg_at c x)
       \<and> (\<forall>p \<in> set rest. is_qos0 c p \<and> sync (msg_at c p) \<longrightarrow>
             error (msg_at (dropQos0_waiting_loop E rest c) p) = CELIX_ILLEGAL_STATE)"
      using Cons.prems r by (intro Cons.IH) simp_all
    moreover have "dropQos0_waiting_loop E (cur # rest) c = dropQos0_waiting_loop E rest c"
      using False by (simp add: is_qos0_def)
    ultimately show ?thesis using False r by auto
  next
    case True
    let ?c1 = "celix_earpmc_enqueueMsgToPublishedQueue E c cur CELIX_ILLEGAL_STATE"
    let ?c2 = "?c1\<lparr>waitingMessages := remove1 cur (waitingMessages ?c1)\<rparr>"
    let ?c' = "celix_earpmc_messageRelease ?c2 cur"
    have step: "dropQos0_waiting_loop E (cur # rest) c = dropQos0_waiting_loop E rest ?c'"
      using True by (simp add: is_qos0_def Let_def)
    have fresh: "sync (msg_at c cur) \<longrightarrow> map_of (publishedMessages c) (seqNr (msg_at c cur)) = None"
      using Cons.prems(4) True by (auto split: if_splits)
    note ds = drop_step [OF Cons.prems(1) fresh refl, of ?c2]
    have p1: "publishedMessages ?c'
               = publishedMessages c @ (if sync (msg_at c cur) then [(seqNr (msg_at c cur), cur)] else [])"
      by (rule ds(1)) simp_all
    have b1: "\<And>x. x \<noteq> cur \<Longrightarrow> msg_at ?c' x = msg_at c x"
      by (rule ds(2)) simp_all
    have e1: "sync (msg_at c cur) \<Longrightarrow> error (msg_at ?c' cur) = CELIX_ILLEGAL_STATE"
      by (rule ds(3)) simp_all
    have st: "is_qos0 ?c' = is_qos0 c" "\<And>x. sync (msg_at ?c' x) = sync (msg_at c x)"
            "\<And>x. seqNr (msg_at ?c' x) = seqNr (msg_at c x)"
      by simp_all
    have rc: "recorded ?c' rest = recorded c rest" using st by (rule recorded_cong)
    have d': "distinct (map fst (recorded ?c' rest))"
      unfolding rc using Cons.prems(3) True by (simp split: if_splits)
    have f': "\<forall>k \<in> fst ` set (recorded ?c' rest). map_of (publishedMessages ?c') k = None"
      unfolding rc p1 using Cons.prems(3,4) True
      by (force simp: map_of_append_None split: if_splits)
    have ih: "publishedMessages (dropQos0_waiting_loop E rest ?c')
                = publishedMessages ?c' @ recorded ?c' rest
           \<and> (\<forall>x. \<not> (x \<in> set rest \<and> is_qos0 ?c' x) \<longrightarrow>
                 msg_at (dropQos0_waiting_loop E rest ?c') x = msg_at ?c' x)
           \<and> (\<forall>p \<in> set rest. is_qos0 ?c' p \<and> sync (msg_at ?c' p) \<longrightarrow>
                 error (msg_at (dropQos0_waiting_loop E rest ?c') p) = CELIX_ILLEGAL_STATE)"
      using Cons.prems(1,2) d' f' by (intro Cons.IH) simp_all
    have nin: "cur \<notin> set rest" using Cons.prems(2) by simp
    show ?thesis
      unfolding step
      by (rule drop_effect_combine [OF True nin st p1 b1 e1 ih])
  qed
qed


lemma map_of_middle:
  "distinct (map fst (kept @ (k, v) # es)) \<Longrightarrow> map_of (kept @ (k, v) # es) k = Some v"
  by (induction kept) (auto simp: rev_image_eqI)

lemma dropQos0_publishing_loop_effect:
  assumes "\<forall>n. mem_ok E n" and "publishingMessages c = kept @ es"
    and "distinct (map fst (kept @ es))" and "distinct (map snd es)"
    and "distinct (map fst (recorded c (map snd es)))"
    and "\<forall>k \<in> fst ` set (recorded c (map snd es)). map_of (publishedMessages c) k = None"
  shows "publishedMessages (dropQos0_publishing_loop E es c)
           = publishedMessages c @ recorded c (map snd es)
       \<and> (\<forall>x. \<not> (x \<in> set (map snd es) \<and> is_qos0 c x) \<longrightarrow>
             msg_at (dropQos0_publishing_loop E es c) x = msg_at c x)
       \<and> (\<forall>p \<in> set (map snd es). is_qos0 c p \<and> sync (msg_at c p) \<longrightarrow>
             error (msg_at (dropQos0_publishing_loop E es c) p) = CELIX_ILLEGAL_STATE)"
  using assms
proof (induction es arbitrary: c kept)
  case Nil
  show ?case by simp
next
  case (Cons e es)
  obtain mid cur where e: "e = (mid, cur)" by (cases e)
  show ?case
  proof (cases "is_qos0 c cur")
    case False
    have r: "recorded c (map snd (e # es)) = recorded c (map snd es)" using False e by simp
    have pm: "publishingMessages c = (kept @ [e]) @ es" using Cons.prems(2) by simp
    have dk: "distinct (map fst ((kept @ [e]) @ es))" using Cons.prems(3) by simp
    have "publishedMessages (dropQos0_publishing_loop E es c)
           = publishedMessages c @ recorded c (map snd es)
       \<and> (\<forall>x. \<not> (x \<in> set (map snd es) \<and> is_qos0 c x) \<longrightarrow>
             msg_at (dropQos0_publishing_loop E es c) x = msg_at c x)
       \<and> (\<forall>p \<in> set (map snd es). is_qos0 c p \<and> sync (msg_at c p) \<longrightarrow>
             error (msg_at (dropQos0_publishing_loop E es c) p) = CELIX_ILLEGAL_STATE)"
      using Cons.prems(1,4,5,6) r by (intro Cons.IH [OF _ pm dk]) simp_all
    moreover have "dropQos0_publishing_loop E (e # es) c = dropQos0_publishing_loop E es c"
      using False e by (simp add: is_qos0_def)
    ultimately show ?thesis using False r e by auto
  next
    case True
    let ?c1 = "celix_earpmc_enqueueMsgToPublishedQueue E c cur CELIX_ILLEGAL_STATE"
    let ?c2 = "?c1\<lparr>publishingMessages := AList.delete mid (publishingMessages ?c1)\<rparr>"
    let ?c' = "celix_earpmc_messageRelease ?c2 cur"
    have dk0: "distinct (map fst (kept @ (mid, cur) # es))" using Cons.prems(3) e by simp
    have pm0: "publishingMessages ?c1 = kept @ (mid, cur) # es" using Cons.prems(2) e by simp
    have look: "map_of (publishingMessages ?c1) mid = Some cur"
      unfolding pm0 using dk0 by (rule map_of_middle)
    have rm: "snd (publishingMessages_remove ?c1 mid) = ?c'"
      using look by (simp add: publishingMessages_remove_def)
    have step: "dropQos0_publishing_loop E (e # es) c = dropQos0_publishing_loop E es ?c'"
      using True e rm by (simp add: is_qos0_def)
    have fresh: "sync (msg_at c cur) \<longrightarrow> map_of (publishedMessages c) (seqNr (msg_at c cur)) = None"
      using Cons.prems(6) True e by (auto split: if_splits)
    note ds = drop_step [OF Cons.prems(1) fresh refl, of ?c2]
    have p1: "publishedMessages ?c'
               = publishedMessages c @ (if sync (msg_at c cur) then [(seqNr (msg_at c cur), cur)] else [])"
      by (rule ds(1)) simp_all
    have b1: "\<And>x. x \<noteq> cur \<Longrightarrow> msg_at ?c' x = msg_at c x"
      by (rule ds(2)) simp_all
    have e1: "sync (msg_at c cur) \<Longrightarrow> error (msg_at ?c' cur) = CELIX_ILLEGAL_STATE"
      by (rule ds(3)) simp_all
    have st: "is_qos0 ?c' = is_qos0 c" "\<And>x. sync (msg_at ?c' x) = sync (msg_at c x)"
            "\<And>x. seqNr (msg_at ?c' x) = seqNr (msg_at c x)"
      by (simp_all add: is_qos0_def fun_eq_iff)
    have rc: "recorded ?c' (map snd es) = recorded c (map snd es)" using st by (rule recorded_cong)
    have "AList.delete mid (publishingMessages ?c1) = kept @ es"
      unfolding pm0 using dk0 by (rule delete_middle)
    then have pm: "publishingMessages ?c' = kept @ es" by simp
    have dk: "distinct (map fst (kept @ es))" using Cons.prems(3) by simp
    have dp: "distinct (map snd es)" using Cons.prems(4) by simp
    have d': "distinct (map fst (recorded ?c' (map snd es)))"
      unfolding rc using Cons.prems(5) True e by (simp split: if_splits)
    have f': "\<forall>k \<in> fst ` set (recorded ?c' (map snd es)). map_of (publishedMessages ?c') k = None"
      unfolding rc p1 using Cons.prems(5,6) True e
      by (force simp: map_of_append_None split: if_splits)
    have ih: "publishedMessages (dropQos0_publishing_loop E es ?c')
                = publishedMessages ?c' @ recorded ?c' (map snd es)
           \<and> (\<forall>x. \<not> (x \<in> set (map snd es) \<and> is_qos0 ?c' x) \<longrightarrow>
                 msg_at (dropQos0_publishing_loop E es ?c') x = msg_at ?c' x)
           \<and> (\<forall>p \<in> set (map snd es). is_qos0 ?c' p \<and> sync (msg_at ?c' p) \<longrightarrow>
                 error (msg_at (dropQos0_publishing_loop E es ?c') p) = CELIX_ILLEGAL_STATE)"
      by (rule Cons.IH [OF Cons.prems(1) pm dk dp d' f'])
    have nin: "cur \<notin> set (map snd es)" using Cons.prems(4) e by simp
    have "publishedMessages (dropQos0_publishing_loop E es ?c')
            = publishedMessages c @ recorded c (cur # map snd es)
       \<and> (\<forall>x. \<not> (x \<in> set (cur # map snd es) \<and> is_qos0 c x) \<longrightarrow>
             msg_at (dropQos0_publishing_loop E es ?c') x = msg_at c x)
       \<and> (\<forall>p \<in> set (cur # map snd es). is_qos0 c p \<and> sync (msg_at c p) \<longrightarrow>
             error (msg_at (dropQos0_publishing_loop E es ?c') p) = CELIX_ILLEGAL_STATE)"
      by (rule drop_effect_combine [OF True nin st p1 b1 e1 ih])
    then show ?thesis unfolding step using e by simp
  qed
qed


lemma dropQos0_publishing_loop_static [simp]:
  "sync (msg_at (dropQos0_publishing_loop E es c) x) = sync (msg_at c x)"
  "seqNr (msg_at (dropQos0_publishing_loop E es c) x) = seqNr (msg_at c x)"
  by (induction E es c rule: dropQos0_publishing_loop.induct) simp_all

lemma recorded_distinct:
  "distinct (map (\<lambda>p. seqNr (msg_at c p)) ps) \<Longrightarrow> distinct (map fst (recorded c ps))"
  by (simp add: recorded_def comp_def distinct_map_filter)

lemma recorded_member:
  "p \<in> set ps \<Longrightarrow> is_qos0 c p \<Longrightarrow> sync (msg_at c p) \<Longrightarrow>
   (seqNr (msg_at c p), p) \<in> set (recorded c ps)"
  by (simp add: recorded_def)

lemma disconnect_effect:
  assumes mem: "\<forall>n. mem_ok E n" and wf: "queues_hold_each_message_once c"
  shows "publishedMessages (celix_earpmc_disconnectCallback E c)
           = publishedMessages c
               @ recorded c (map snd (publishingMessages c) @ waitingMessages c)"
    and "\<And>x. \<not> is_qos0 c x \<Longrightarrow> msg_at (celix_earpmc_disconnectCallback E c) x = msg_at c x"
    and "\<And>p. p \<in> set (map snd (publishingMessages c) @ waitingMessages c) \<Longrightarrow>
           is_qos0 c p \<Longrightarrow> sync (msg_at c p) \<Longrightarrow>
           error (msg_at (celix_earpmc_disconnectCallback E c) p) = CELIX_ILLEGAL_STATE
           \<and> map_of (publishedMessages (celix_earpmc_disconnectCallback E c)) (seqNr (msg_at c p))
               = Some p"
proof -
  define pubs where "pubs = map snd (publishingMessages c)"
  define ws where "ws = waitingMessages c"
  define sq where "sq = (\<lambda>p. seqNr (msg_at c p))"
  define c0 where "c0 = c\<lparr>connected := False\<rparr>"
  define c1 where "c1 = dropQos0_publishing_loop E (publishingMessages c) c0"
  define c' where "c' = celix_earpmc_disconnectCallback E c"
  have c0: "publishingMessages c0 = publishingMessages c" "waitingMessages c0 = ws"
    "publishedMessages c0 = publishedMessages c" "msg_at c0 = msg_at c" "is_qos0 c0 = is_qos0 c"
    by (simp_all add: c0_def ws_def)
  have dc: "c' = dropQos0_waiting_loop E ws c1"
    by (simp add: c'_def c1_def c0_def ws_def celix_earpmc_disconnectCallback_def
          celix_earpmc_dropQos0Messages_def Let_def)
  from wf have dk: "distinct (map fst (publishingMessages c))"
    and dp: "distinct (pubs @ ws)"
    and dsq: "distinct (map sq (pubs @ ws))"
    and fr: "\<forall>p \<in> set (pubs @ ws). map_of (publishedMessages c) (sq p) = None"
    by (simp_all add: queues_hold_each_message_once_def list_all_iff pubs_def ws_def sq_def
          del: map_append)
  have r0: "\<And>ps. recorded c0 ps = recorded c ps"
    by (rule recorded_cong) (simp_all add: c0)
  have keys: "\<And>ps. fst ` set (recorded c ps) \<subseteq> sq ` set ps"
    by (auto simp: recorded_keys sq_def)
  have dpubs: "distinct pubs" and dws: "distinct ws" using dp by simp_all
  have dsq_pubs: "distinct (map sq pubs)" and dsq_ws: "distinct (map sq ws)"
    and disj: "sq ` set pubs \<inter> sq ` set ws = {}"
    using dsq by auto
  have e1: "publishedMessages c1 = publishedMessages c0 @ recorded c0 (map snd (publishingMessages c))
       \<and> (\<forall>x. \<not> (x \<in> set (map snd (publishingMessages c)) \<and> is_qos0 c0 x) \<longrightarrow>
             msg_at c1 x = msg_at c0 x)
       \<and> (\<forall>p \<in> set (map snd (publishingMessages c)). is_qos0 c0 p \<and> sync (msg_at c0 p) \<longrightarrow>
             error (msg_at c1 p) = CELIX_ILLEGAL_STATE)"
    unfolding c1_def
  proof (rule dropQos0_publishing_loop_effect [OF mem, where kept = "[]"])
    show "publishingMessages c0 = [] @ publishingMessages c" by (simp add: c0)
    show "distinct (map fst ([] @ publishingMessages c))" using dk by simp
    show "distinct (map snd (publishingMessages c))" using dpubs by (simp add: pubs_def)
    show "distinct (map fst (recorded c0 (map snd (publishingMessages c))))"
      unfolding r0 using dsq_pubs by (simp add: recorded_distinct sq_def pubs_def)
    show "\<forall>k \<in> fst ` set (recorded c0 (map snd (publishingMessages c))).
            map_of (publishedMessages c0) k = None"
    proof
      fix k assume "k \<in> fst ` set (recorded c0 (map snd (publishingMessages c)))"
      then have "k \<in> sq ` set pubs" using keys [of pubs] by (auto simp: r0 pubs_def)
      then obtain p where "p \<in> set pubs" and "k = sq p" by blast
      then show "map_of (publishedMessages c0) k = None" using fr by (simp add: c0)
    qed
  qed
  have p1: "publishedMessages c1 = publishedMessages c @ recorded c pubs"
    using e1 by (simp add: r0 c0 pubs_def)
  have b1: "msg_at c1 x = msg_at c x" if "\<not> (x \<in> set pubs \<and> is_qos0 c x)" for x
  proof -
    have "\<not> (x \<in> set (map snd (publishingMessages c)) \<and> is_qos0 c0 x)"
      using that by (simp add: c0 pubs_def)
    then have "msg_at c1 x = msg_at c0 x" using e1 by blast
    then show ?thesis by (simp add: c0)
  qed
  have er1: "error (msg_at c1 p) = CELIX_ILLEGAL_STATE"
    if "p \<in> set pubs" "is_qos0 c p" "sync (msg_at c p)" for p
  proof -
    have "p \<in> set (map snd (publishingMessages c))" using that(1) by (simp add: pubs_def)
    moreover have "is_qos0 c0 p \<and> sync (msg_at c0 p)" using that by (simp add: c0)
    ultimately show ?thesis using e1 by blast
  qed
  have st1: "is_qos0 c1 = is_qos0 c" "\<And>x. sync (msg_at c1 x) = sync (msg_at c x)"
    "\<And>x. seqNr (msg_at c1 x) = seqNr (msg_at c x)"
    by (simp_all add: c1_def c0)
  have r1: "\<And>ps. recorded c1 ps = recorded c ps"
    using st1 by (rule recorded_cong)
  have e2: "publishedMessages (dropQos0_waiting_loop E ws c1) = publishedMessages c1 @ recorded c1 ws
       \<and> (\<forall>x. \<not> (x \<in> set ws \<and> is_qos0 c1 x) \<longrightarrow>
             msg_at (dropQos0_waiting_loop E ws c1) x = msg_at c1 x)
       \<and> (\<forall>p \<in> set ws. is_qos0 c1 p \<and> sync (msg_at c1 p) \<longrightarrow>
             error (msg_at (dropQos0_waiting_loop E ws c1) p) = CELIX_ILLEGAL_STATE)"
  proof (rule dropQos0_waiting_loop_effect [OF mem dws])
    show "distinct (map fst (recorded c1 ws))"
      unfolding r1 using dsq_ws by (simp add: recorded_distinct sq_def)
    show "\<forall>k \<in> fst ` set (recorded c1 ws). map_of (publishedMessages c1) k = None"
    proof
      fix k assume "k \<in> fst ` set (recorded c1 ws)"
      then have k: "k \<in> sq ` set ws" using keys [of ws] by (auto simp: r1)
      then obtain w where "w \<in> set ws" and "k = sq w" by blast
      then have "map_of (publishedMessages c) k = None" using fr by simp
      moreover have "k \<notin> fst ` set (recorded c pubs)" using k keys [of pubs] disj by blast
      then have "map_of (recorded c pubs) k = None" by (simp add: map_of_eq_None_iff)
      ultimately show "map_of (publishedMessages c1) k = None"
        by (simp add: p1 map_of_append_None)
    qed
  qed
  have pd: "publishedMessages c' = publishedMessages c @ recorded c (pubs @ ws)"
    using e2 by (simp add: dc p1 r1)
  have same: "msg_at c' x = msg_at c x" if "\<not> is_qos0 c x" for x
  proof -
    have "\<not> (x \<in> set ws \<and> is_qos0 c1 x)" using that st1 by simp
    then have "msg_at c' x = msg_at c1 x" using e2 unfolding dc by blast
    then show ?thesis using b1 [of x] that by simp
  qed
  have rec: "error (msg_at c' p) = CELIX_ILLEGAL_STATE
           \<and> map_of (publishedMessages c') (seqNr (msg_at c p)) = Some p"
    if p: "p \<in> set (pubs @ ws)" and q: "is_qos0 c p" and sy: "sync (msg_at c p)" for p
  proof -
    have err: "error (msg_at c' p) = CELIX_ILLEGAL_STATE"
    proof (cases "p \<in> set ws")
      case True
      moreover have "is_qos0 c1 p \<and> sync (msg_at c1 p)" using q sy st1 by simp
      ultimately show ?thesis using e2 unfolding dc by blast
    next
      case False
      then have pp: "p \<in> set pubs" using p by auto
      have "\<not> (p \<in> set ws \<and> is_qos0 c1 p)" using False by simp
      then have "msg_at c' p = msg_at c1 p" using e2 unfolding dc by blast
      then show ?thesis using er1 [OF pp q sy] by simp
    qed
    have "map_of (publishedMessages c) (sq p) = None" using fr p by blast
    moreover have "map_of (recorded c (pubs @ ws)) (sq p) = Some p"
    proof (rule map_of_is_SomeI)
      show "distinct (map fst (recorded c (pubs @ ws)))"
        using dsq unfolding sq_def by (rule recorded_distinct)
      show "(sq p, p) \<in> set (recorded c (pubs @ ws))"
        unfolding sq_def using p q sy by (rule recorded_member)
    qed
    ultimately have "map_of (publishedMessages c') (sq p) = Some p"
      unfolding pd by (simp add: map_add_Some_iff)
    with err show ?thesis by (simp add: sq_def)
  qed
  show "publishedMessages (celix_earpmc_disconnectCallback E c)
           = publishedMessages c
               @ recorded c (map snd (publishingMessages c) @ waitingMessages c)"
    using pd by (simp add: c'_def pubs_def ws_def)
  show "\<And>x. \<not> is_qos0 c x \<Longrightarrow> msg_at (celix_earpmc_disconnectCallback E c) x = msg_at c x"
    using same by (simp add: c'_def)
  show "\<And>p. p \<in> set (map snd (publishingMessages c) @ waitingMessages c) \<Longrightarrow>
           is_qos0 c p \<Longrightarrow> sync (msg_at c p) \<Longrightarrow>
           error (msg_at (celix_earpmc_disconnectCallback E c) p) = CELIX_ILLEGAL_STATE
           \<and> map_of (publishedMessages (celix_earpmc_disconnectCallback E c)) (seqNr (msg_at c p))
               = Some p"
    using rec unfolding c'_def pubs_def ws_def by blast
qed

lemma enqueuePublished_fresh_frame:
  assumes "sync (msg_at c p) \<longrightarrow> map_of (publishedMessages c) (seqNr (msg_at c p)) = None"
  shows "x \<noteq> p \<Longrightarrow> msg_at (celix_earpmc_enqueueMsgToPublishedQueue E c p e) x = msg_at c x"
    and "fst ` set (publishedMessages (celix_earpmc_enqueueMsgToPublishedQueue E c p e))
           \<subseteq> fst ` set (publishedMessages c)
               \<union> (if sync (msg_at c p) then {seqNr (msg_at c p)} else {})"
  using assms
  by (auto simp: celix_earpmc_enqueueMsgToPublishedQueue_def publishedMessages_put_def Let_def)

lemma drop_step_frame:
  assumes fresh: "sync (msg_at c p) \<longrightarrow> map_of (publishedMessages c) (seqNr (msg_at c p)) = None"
    and c1: "c1 = celix_earpmc_enqueueMsgToPublishedQueue E c p CELIX_ILLEGAL_STATE"
    and pd: "publishedMessages c2 = publishedMessages c1" and bl: "msg_at c2 = msg_at c1"
  shows "x \<noteq> p \<Longrightarrow> msg_at (celix_earpmc_messageRelease c2 p) x = msg_at c x"
    and "fst ` set (publishedMessages (celix_earpmc_messageRelease c2 p))
           \<subseteq> fst ` set (publishedMessages c)
               \<union> (if sync (msg_at c p) then {seqNr (msg_at c p)} else {})"
proof -
  show "x \<noteq> p \<Longrightarrow> msg_at (celix_earpmc_messageRelease c2 p) x = msg_at c x"
    using enqueuePublished_fresh_frame(1) [OF fresh, of x E CELIX_ILLEGAL_STATE]
    by (simp add: msg_at_release bl c1)
  show "fst ` set (publishedMessages (celix_earpmc_messageRelease c2 p))
           \<subseteq> fst ` set (publishedMessages c)
               \<union> (if sync (msg_at c p) then {seqNr (msg_at c p)} else {})"
    using enqueuePublished_fresh_frame(2) [OF fresh, of E CELIX_ILLEGAL_STATE]
    by (simp add: pd c1)
qed

lemma fresh_after_step:
  assumes sub: "fst ` set pub' \<subseteq> fst ` set pub \<union> (if s then {k0} else {})"
    and d: "distinct (map fst (if s then (k0, v0) # r else r))"
    and f: "\<forall>k \<in> fst ` set (if s then (k0, v0) # r else r). map_of pub k = None"
  shows "\<forall>k \<in> fst ` set r. map_of pub' k = None"
proof
  fix k assume k: "k \<in> fst ` set r"
  then have "map_of pub k = None" using f by (auto split: if_splits)
  then have "k \<notin> fst ` set pub" by (simp add: map_of_eq_None_iff)
  moreover have "s \<Longrightarrow> k \<noteq> k0" using d k by auto
  ultimately have "k \<notin> fst ` set pub'" using sub by (auto split: if_splits)
  then show "map_of pub' k = None" by (simp add: map_of_eq_None_iff)
qed

lemma dropQos0_waiting_loop_blocks:
  assumes "distinct (map fst (recorded c ps))"
    and "\<forall>k \<in> fst ` set (recorded c ps). map_of (publishedMessages c) k = None"
  shows "(\<forall>x. \<not> (x \<in> set ps \<and> is_qos0 c x) \<longrightarrow>
             msg_at (dropQos0_waiting_loop E ps c) x = msg_at c x)
       \<and> fst ` set (publishedMessages (dropQos0_waiting_loop E ps c))
           \<subseteq> fst ` set (publishedMessages c) \<union> fst ` set (recorded c ps)"
  using assms
proof (induction ps arbitrary: c)
  case Nil
  show ?case by simp
next
  case (Cons cur rest)
  show ?case
  proof (cases "is_qos0 c cur")
    case False
    have r: "recorded c (cur # rest) = recorded c rest" using False by simp
    have "(\<forall>x. \<not> (x \<in> set rest \<and> is_qos0 c x) \<longrightarrow>
             msg_at (dropQos0_waiting_loop E rest c) x = msg_at c x)
       \<and> fst ` set (publishedMessages (dropQos0_waiting_loop E rest c))
           \<subseteq> fst ` set (publishedMessages c) \<union> fst ` set (recorded c rest)"
      using Cons.prems r by (intro Cons.IH) simp_all
    moreover have "dropQos0_waiting_loop E (cur # rest) c = dropQos0_waiting_loop E rest c"
      using False by (simp add: is_qos0_def)
    ultimately show ?thesis using False r by auto
  next
    case True
    let ?c1 = "celix_earpmc_enqueueMsgToPublishedQueue E c cur CELIX_ILLEGAL_STATE"
    let ?c2 = "?c1\<lparr>waitingMessages := remove1 cur (waitingMessages ?c1)\<rparr>"
    let ?c' = "celix_earpmc_messageRelease ?c2 cur"
    let ?f = "dropQos0_waiting_loop E rest ?c'"
    have step: "dropQos0_waiting_loop E (cur # rest) c = ?f"
      using True by (simp add: is_qos0_def Let_def)
    have rec: "recorded c (cur # rest)
                 = (if sync (msg_at c cur) then (seqNr (msg_at c cur), cur) # recorded c rest
                    else recorded c rest)"
      using True by simp
    have fresh: "sync (msg_at c cur) \<longrightarrow> map_of (publishedMessages c) (seqNr (msg_at c cur)) = None"
      using Cons.prems(2) True by (auto split: if_splits)
    note ds = drop_step_frame [OF fresh refl, of ?c2]
    have b1: "\<And>x. x \<noteq> cur \<Longrightarrow> msg_at ?c' x = msg_at c x"
      by (rule ds(1)) simp_all
    have k1: "fst ` set (publishedMessages ?c')
                \<subseteq> fst ` set (publishedMessages c)
                    \<union> (if sync (msg_at c cur) then {seqNr (msg_at c cur)} else {})"
      by (rule ds(2)) simp_all
    have st: "is_qos0 ?c' = is_qos0 c" "\<And>x. sync (msg_at ?c' x) = sync (msg_at c x)"
            "\<And>x. seqNr (msg_at ?c' x) = seqNr (msg_at c x)"
      by simp_all
    have rc: "recorded ?c' rest = recorded c rest" using st by (rule recorded_cong)
    have d': "distinct (map fst (recorded ?c' rest))"
      unfolding rc using Cons.prems(1) True by (simp split: if_splits)
    have f': "\<forall>k \<in> fst ` set (recorded ?c' rest). map_of (publishedMessages ?c') k = None"
      unfolding rc
      by (rule fresh_after_step [OF k1, where ?v0.0 = cur])
         (use Cons.prems rec in simp_all)
    have ih: "(\<forall>x. \<not> (x \<in> set rest \<and> is_qos0 ?c' x) \<longrightarrow> msg_at ?f x = msg_at ?c' x)
       \<and> fst ` set (publishedMessages ?f)
           \<subseteq> fst ` set (publishedMessages ?c') \<union> fst ` set (recorded ?c' rest)"
      using d' f' by (rule Cons.IH)
    have a: "\<forall>x. \<not> (x \<in> set (cur # rest) \<and> is_qos0 c x) \<longrightarrow> msg_at ?f x = msg_at c x"
    proof (intro allI impI)
      fix x assume x: "\<not> (x \<in> set (cur # rest) \<and> is_qos0 c x)"
      then have xc: "x \<noteq> cur" using True by auto
      have "\<not> (x \<in> set rest \<and> is_qos0 ?c' x)" using x st(1) by auto
      then have "msg_at ?f x = msg_at ?c' x" using ih by blast
      then show "msg_at ?f x = msg_at c x" using b1 [OF xc] by simp
    qed
    have b: "fst ` set (publishedMessages ?f)
           \<subseteq> fst ` set (publishedMessages c) \<union> fst ` set (recorded c (cur # rest))"
    proof -
      have "fst ` set (publishedMessages ?f)
              \<subseteq> fst ` set (publishedMessages ?c') \<union> fst ` set (recorded c rest)"
        using ih unfolding rc by blast
      moreover have "(if sync (msg_at c cur) then {seqNr (msg_at c cur)} else {})
                       \<union> fst ` set (recorded c rest)
                     = fst ` set (recorded c (cur # rest))"
        unfolding rec by auto
      ultimately show ?thesis using k1 by blast
    qed
    show ?thesis unfolding step using a b by blast
  qed
qed

lemma dropQos0_publishing_loop_blocks:
  assumes "publishingMessages c = kept @ es"
    and "distinct (map fst (kept @ es))"
    and "distinct (map fst (recorded c (map snd es)))"
    and "\<forall>k \<in> fst ` set (recorded c (map snd es)). map_of (publishedMessages c) k = None"
  shows "(\<forall>x. \<not> (x \<in> set (map snd es) \<and> is_qos0 c x) \<longrightarrow>
             msg_at (dropQos0_publishing_loop E es c) x = msg_at c x)
       \<and> fst ` set (publishedMessages (dropQos0_publishing_loop E es c))
           \<subseteq> fst ` set (publishedMessages c) \<union> fst ` set (recorded c (map snd es))"
  using assms
proof (induction es arbitrary: c kept)
  case Nil
  show ?case by simp
next
  case (Cons e es)
  obtain mid cur where e: "e = (mid, cur)" by (cases e)
  show ?case
  proof (cases "is_qos0 c cur")
    case False
    have r: "recorded c (map snd (e # es)) = recorded c (map snd es)" using False e by simp
    have pm: "publishingMessages c = (kept @ [e]) @ es" using Cons.prems(1) by simp
    have dk: "distinct (map fst ((kept @ [e]) @ es))" using Cons.prems(2) by simp
    have "(\<forall>x. \<not> (x \<in> set (map snd es) \<and> is_qos0 c x) \<longrightarrow>
             msg_at (dropQos0_publishing_loop E es c) x = msg_at c x)
       \<and> fst ` set (publishedMessages (dropQos0_publishing_loop E es c))
           \<subseteq> fst ` set (publishedMessages c) \<union> fst ` set (recorded c (map snd es))"
      using Cons.prems(3,4) r by (intro Cons.IH [OF pm dk]) simp_all
    moreover have "dropQos0_publishing_loop E (e # es) c = dropQos0_publishing_loop E es c"
      using False e by (simp add: is_qos0_def)
    ultimately show ?thesis using False r e by auto
  next
    case True
    let ?c1 = "celix_earpmc_enqueueMsgToPublishedQueue E c cur CELIX_ILLEGAL_STATE"
    let ?c2 = "?c1\<lparr>publishingMessages := AList.delete mid (publishingMessages ?c1)\<rparr>"
    let ?c' = "celix_earpmc_messageRelease ?c2 cur"
    let ?f = "dropQos0_publishing_loop E es ?c'"
    have dk0: "distinct (map fst (kept @ (mid, cur) # es))" using Cons.prems(2) e by simp
    have pm0: "publishingMessages ?c1 = kept @ (mid, cur) # es" using Cons.prems(1) e by simp
    have look: "map_of (publishingMessages ?c1) mid = Some cur"
      unfolding pm0 using dk0 by (rule map_of_middle)
    have rm: "snd (publishingMessages_remove ?c1 mid) = ?c'"
      using look by (simp add: publishingMessages_remove_def)
    have step: "dropQos0_publishing_loop E (e # es) c = ?f"
      using True e rm by (simp add: is_qos0_def)
    have rec: "recorded c (map snd (e # es))
                 = (if sync (msg_at c cur) then (seqNr (msg_at c cur), cur) # recorded c (map snd es)
                    else recorded c (map snd es))"
      using True e by simp
    have fresh: "sync (msg_at c cur) \<longrightarrow> map_of (publishedMessages c) (seqNr (msg_at c cur)) = None"
      using Cons.prems(4) True e by (auto split: if_splits)
    note ds = drop_step_frame [OF fresh refl, of ?c2]
    have b1: "\<And>x. x \<noteq> cur \<Longrightarrow> msg_at ?c' x = msg_at c x"
      by (rule ds(1)) simp_all
    have k1: "fst ` set (publishedMessages ?c')
                \<subseteq> fst ` set (publishedMessages c)
                    \<union> (if sync (msg_at c cur) then {seqNr (msg_at c cur)} else {})"
      by (rule ds(2)) simp_all
    have st: "is_qos0 ?c' = is_qos0 c" "\<And>x. sync (msg_at ?c' x) = sync (msg_at c x)"
            "\<And>x. seqNr (msg_at ?c' x) = seqNr (msg_at c x)"
      by (simp_all add: is_qos0_def fun_eq_iff)
    have rc: "recorded ?c' (map snd es) = recorded c (map snd es)" using st by (rule recorded_cong)
    have "AList.delete mid (publishingMessages ?c1) = kept @ es"
      unfolding pm0 using dk0 by (rule delete_middle)
    then have pm: "publishingMessages ?c' = kept @ es" by simp
    have dk: "distinct (map fst (kept @ es))" using Cons.prems(2) by simp
    have d': "distinct (map fst (recorded ?c' (map snd es)))"
      unfolding rc using Cons.prems(3) True e by (simp split: if_splits)
    have f': "\<forall>k \<in> fst ` set (recorded ?c' (map snd es)). map_of (publishedMessages ?c') k = None"
      unfolding rc
      by (rule fresh_after_step [OF k1, where ?v0.0 = cur])
         (use Cons.prems rec in simp_all)
    have ih: "(\<forall>x. \<not> (x \<in> set (map snd es) \<and> is_qos0 ?c' x) \<longrightarrow> msg_at ?f x = msg_at ?c' x)
       \<and> fst ` set (publishedMessages ?f)
           \<subseteq> fst ` set (publishedMessages ?c') \<union> fst ` set (recorded ?c' (map snd es))"
      by (rule Cons.IH [OF pm dk d' f'])
    have a: "\<forall>x. \<not> (x \<in> set (map snd (e # es)) \<and> is_qos0 c x) \<longrightarrow> msg_at ?f x = msg_at c x"
    proof (intro allI impI)
      fix x assume x: "\<not> (x \<in> set (map snd (e # es)) \<and> is_qos0 c x)"
      then have xc: "x \<noteq> cur" using True e by auto
      have "\<not> (x \<in> set (map snd es) \<and> is_qos0 ?c' x)" using x st(1) by auto
      then have "msg_at ?f x = msg_at ?c' x" using ih by blast
      then show "msg_at ?f x = msg_at c x" using b1 [OF xc] by simp
    qed
    have b: "fst ` set (publishedMessages ?f)
           \<subseteq> fst ` set (publishedMessages c) \<union> fst ` set (recorded c (map snd (e # es)))"
    proof -
      have "fst ` set (publishedMessages ?f)
              \<subseteq> fst ` set (publishedMessages ?c') \<union> fst ` set (recorded c (map snd es))"
        using ih unfolding rc by blast
      moreover have "(if sync (msg_at c cur) then {seqNr (msg_at c cur)} else {})
                       \<union> fst ` set (recorded c (map snd es))
                     = fst ` set (recorded c (map snd (e # es)))"
        unfolding rec by auto
      ultimately show ?thesis using k1 by blast
    qed
    show ?thesis unfolding step using a b by blast
  qed
qed


lemma disconnect_blocks:
  assumes wf: "queues_hold_each_message_once c" and x: "\<not> is_qos0 c x"
  shows "msg_at (celix_earpmc_disconnectCallback E c) x = msg_at c x"
proof -
  define pubs where "pubs = map snd (publishingMessages c)"
  define ws where "ws = waitingMessages c"
  define sq where "sq = (\<lambda>p. seqNr (msg_at c p))"
  define c0 where "c0 = c\<lparr>connected := False\<rparr>"
  define c1 where "c1 = dropQos0_publishing_loop E (publishingMessages c) c0"
  define c' where "c' = celix_earpmc_disconnectCallback E c"
  have c0: "publishingMessages c0 = publishingMessages c" "waitingMessages c0 = ws"
    "publishedMessages c0 = publishedMessages c" "msg_at c0 = msg_at c" "is_qos0 c0 = is_qos0 c"
    by (simp_all add: c0_def ws_def)
  have dc: "c' = dropQos0_waiting_loop E ws c1"
    by (simp add: c'_def c1_def c0_def ws_def celix_earpmc_disconnectCallback_def
          celix_earpmc_dropQos0Messages_def Let_def)
  from wf have dk: "distinct (map fst (publishingMessages c))"
    and dsq: "distinct (map sq (pubs @ ws))"
    and fr: "\<forall>p \<in> set (pubs @ ws). map_of (publishedMessages c) (sq p) = None"
    by (simp_all add: queues_hold_each_message_once_def list_all_iff pubs_def ws_def sq_def
          del: map_append)
  have r0: "\<And>ps. recorded c0 ps = recorded c ps"
    by (rule recorded_cong) (simp_all add: c0)
  have keys: "\<And>ps. fst ` set (recorded c ps) \<subseteq> sq ` set ps"
    by (auto simp: recorded_keys sq_def)
  have dsq_pubs: "distinct (map sq pubs)" and dsq_ws: "distinct (map sq ws)"
    and disj: "sq ` set pubs \<inter> sq ` set ws = {}"
    using dsq by auto
  have e1: "(\<forall>x. \<not> (x \<in> set (map snd (publishingMessages c)) \<and> is_qos0 c0 x) \<longrightarrow>
             msg_at c1 x = msg_at c0 x)
       \<and> fst ` set (publishedMessages c1)
           \<subseteq> fst ` set (publishedMessages c0)
               \<union> fst ` set (recorded c0 (map snd (publishingMessages c)))"
    unfolding c1_def
  proof (rule dropQos0_publishing_loop_blocks [where kept = "[]"])
    show "publishingMessages c0 = [] @ publishingMessages c" by (simp add: c0)
    show "distinct (map fst ([] @ publishingMessages c))" using dk by simp
    show "distinct (map fst (recorded c0 (map snd (publishingMessages c))))"
      unfolding r0 using dsq_pubs by (simp add: recorded_distinct sq_def pubs_def)
    show "\<forall>k \<in> fst ` set (recorded c0 (map snd (publishingMessages c))).
            map_of (publishedMessages c0) k = None"
    proof
      fix k assume "k \<in> fst ` set (recorded c0 (map snd (publishingMessages c)))"
      then have "k \<in> sq ` set pubs" using keys [of pubs] by (auto simp: r0 pubs_def)
      then obtain p where "p \<in> set pubs" and "k = sq p" by blast
      then show "map_of (publishedMessages c0) k = None" using fr by (simp add: c0)
    qed
  qed
  have k1: "fst ` set (publishedMessages c1)
              \<subseteq> fst ` set (publishedMessages c) \<union> sq ` set pubs"
    using e1 keys [of pubs] unfolding r0 c0 pubs_def by blast
  have "\<not> (x \<in> set (map snd (publishingMessages c)) \<and> is_qos0 c0 x)" using x by (simp add: c0)
  then have "msg_at c1 x = msg_at c0 x" using e1 by blast
  then have b1: "msg_at c1 x = msg_at c x" by (simp add: c0)
  have st1: "is_qos0 c1 = is_qos0 c" "\<And>x. sync (msg_at c1 x) = sync (msg_at c x)"
    "\<And>x. seqNr (msg_at c1 x) = seqNr (msg_at c x)"
    by (simp_all add: c1_def c0)
  have r1: "\<And>ps. recorded c1 ps = recorded c ps"
    using st1 by (rule recorded_cong)
  have e2: "(\<forall>x. \<not> (x \<in> set ws \<and> is_qos0 c1 x) \<longrightarrow>
             msg_at (dropQos0_waiting_loop E ws c1) x = msg_at c1 x)
       \<and> fst ` set (publishedMessages (dropQos0_waiting_loop E ws c1))
           \<subseteq> fst ` set (publishedMessages c1) \<union> fst ` set (recorded c1 ws)"
  proof (rule dropQos0_waiting_loop_blocks)
    show "distinct (map fst (recorded c1 ws))"
      unfolding r1 using dsq_ws by (simp add: recorded_distinct sq_def)
    show "\<forall>k \<in> fst ` set (recorded c1 ws). map_of (publishedMessages c1) k = None"
    proof
      fix k assume "k \<in> fst ` set (recorded c1 ws)"
      then have k: "k \<in> sq ` set ws" using keys [of ws] by (auto simp: r1)
      then obtain w where "w \<in> set ws" and "k = sq w" by blast
      then have "map_of (publishedMessages c) k = None" using fr by simp
      then have "k \<notin> fst ` set (publishedMessages c)" by (simp add: map_of_eq_None_iff)
      moreover have "k \<notin> sq ` set pubs" using k disj by blast
      ultimately have "k \<notin> fst ` set (publishedMessages c1)" using k1 by blast
      then show "map_of (publishedMessages c1) k = None" by (simp add: map_of_eq_None_iff)
    qed
  qed
  have "\<not> (x \<in> set ws \<and> is_qos0 c1 x)" using x st1 by simp
  then have "msg_at c' x = msg_at c1 x" using e2 unfolding dc by blast
  then show ?thesis using b1 by (simp add: c'_def)
qed

text \<open>
  C7, as the code has it. The disconnect callback marks the client disconnected and removes
  every message with QoS 0 from the publishing map and from the waiting queue; the messages
  with QoS 1 or 2 stay where they are, in the same order, and their blocks are not touched.
  When no allocation fails, every synchronous message among the removed ones is in the
  published map afterwards, under its sequence number and with the error
  \<^verbatim>\<open>CELIX_ILLEGAL_STATE\<close> for its waiter. (The publishing map and the waiting queue hold each
  message once, with sequence numbers of their own that are not yet in the published map.)
\<close>

theorem disconnect_drops_qos0_messages:
  assumes "queues_hold_each_message_once c"
  shows "\<not> connected (celix_earpmc_disconnectCallback E c)
   \<and> publishingMessages (celix_earpmc_disconnectCallback E c)
       = filter (\<lambda>e. \<not> is_qos0 c (snd e)) (publishingMessages c)
   \<and> waitingMessages (celix_earpmc_disconnectCallback E c)
       = filter (\<lambda>p. \<not> is_qos0 c p) (waitingMessages c)
   \<and> (\<forall>p. \<not> is_qos0 c p \<longrightarrow>
          msg_at (celix_earpmc_disconnectCallback E c) p = msg_at c p)
   \<and> ((\<forall>n. mem_ok E n) \<longrightarrow>
        (\<forall>p \<in> set (map snd (publishingMessages c) @ waitingMessages c).
            is_qos0 c p \<and> sync (msg_at c p) \<longrightarrow>
              map_of (publishedMessages (celix_earpmc_disconnectCallback E c))
                (seqNr (msg_at c p)) = Some p
              \<and> error (msg_at (celix_earpmc_disconnectCallback E c) p) = CELIX_ILLEGAL_STATE))"
proof -
  have dk: "distinct (map fst (publishingMessages c))"
    using assms by (simp add: queues_hold_each_message_once_def)
  have rec: "\<forall>p \<in> set (map snd (publishingMessages c) @ waitingMessages c).
            is_qos0 c p \<and> sync (msg_at c p) \<longrightarrow>
              map_of (publishedMessages (celix_earpmc_disconnectCallback E c))
                (seqNr (msg_at c p)) = Some p
              \<and> error (msg_at (celix_earpmc_disconnectCallback E c) p) = CELIX_ILLEGAL_STATE"
    if "\<forall>n. mem_ok E n"
    using disconnect_effect(3) [OF that assms] by blast
  have same: "\<forall>p. \<not> is_qos0 c p \<longrightarrow>
              msg_at (celix_earpmc_disconnectCallback E c) p = msg_at c p"
    using disconnect_blocks [OF assms] by blast
  from disconnect_structures(1) [of E c] disconnect_structures(2) [of E c]
    disconnect_structures(3) [OF dk, of E] rec same
  show ?thesis by blast
qed

theorem disconnect_drops_qos0_messages_witness:
  "queues_hold_each_message_once client_in_flight
   \<and> (\<forall>n. mem_ok env_ok n)
   \<and> publishingMessages client_in_flight = [(1, 0), (2, 1)]
   \<and> waitingMessages client_in_flight = [2, 3]
   \<and> map (\<lambda>p. (qos (msg_at client_in_flight p), sync (msg_at client_in_flight p),
                 seqNr (msg_at client_in_flight p))) [0, 1, 2, 3]
        = [(0, True, 0), (1, False, 1), (0, False, 2), (2, False, 3)]
   \<and> \<not> connected (celix_earpmc_disconnectCallback env_ok client_in_flight)
   \<and> publishingMessages (celix_earpmc_disconnectCallback env_ok client_in_flight) = [(2, 1)]
   \<and> waitingMessages (celix_earpmc_disconnectCallback env_ok client_in_flight) = [3]
   \<and> map_of (publishedMessages (celix_earpmc_disconnectCallback env_ok client_in_flight)) 0
        = Some 0
   \<and> error (msg_at (celix_earpmc_disconnectCallback env_ok client_in_flight) 0)
        = CELIX_ILLEGAL_STATE
   \<and> msg_at (celix_earpmc_disconnectCallback env_ok client_in_flight) 1
        = msg_at client_in_flight 1
   \<and> msg_at (celix_earpmc_disconnectCallback env_ok client_in_flight) 3
        = msg_at client_in_flight 3"
proof -
  have wf: "queues_hold_each_message_once client_in_flight" by code_simp
  have mem: "\<forall>n. mem_ok env_ok n" by (simp add: env_ok_def)
  have pm: "publishingMessages client_in_flight = [(1, 0), (2, 1)]" by code_simp
  have wm: "waitingMessages client_in_flight = [2, 3]" by code_simp
  have ms: "map (\<lambda>p. (qos (msg_at client_in_flight p), sync (msg_at client_in_flight p),
                 seqNr (msg_at client_in_flight p))) [0, 1, 2, 3]
        = [(0, True, 0), (1, False, 1), (0, False, 2), (2, False, 3)]" by code_simp
  have q: "is_qos0 client_in_flight 0" "\<not> is_qos0 client_in_flight 1"
    "is_qos0 client_in_flight 2" "\<not> is_qos0 client_in_flight 3"
    using ms by (simp_all add: is_qos0_def CELIX_EARPM_QOS_AT_MOST_ONCE_def)
  have q1: "\<not> is_qos0 client_in_flight (Suc 0)" using q(2) by simp
  have s: "sync (msg_at client_in_flight 0)" "seqNr (msg_at client_in_flight 0) = 0"
    using ms by simp_all
  show ?thesis
    using disconnect_drops_qos0_messages [OF wf, of env_ok] mem wf ms
    by (simp add: pm wm q q1 s)
qed

text \<open>
  C7 as stated fails when the insertion into the published map gets no memory. In
  \<open>client_in_flight\<close> the synchronous message \<^verbatim>\<open>s\<close> with QoS 0 is in the publishing map;
  the disconnect callback removes it, and the published map has no record of it, for the
  source only logs the failed insertion.
\<close>

theorem dropped_sync_message_not_recorded_counterexample:
  "allocs client_in_flight = 6
   \<and> queues_hold_each_message_once client_in_flight
   \<and> publishingMessages client_in_flight = [(1, 0), (2, 1)]
   \<and> waitingMessages client_in_flight = [2, 3]
   \<and> publishedMessages client_in_flight = []
   \<and> qos (msg_at client_in_flight 0) = CELIX_EARPM_QOS_AT_MOST_ONCE
   \<and> sync (msg_at client_in_flight 0)
   \<and> seqNr (msg_at client_in_flight 0) = 0
   \<and> publishingMessages (celix_earpmc_disconnectCallback env_memory_exhausted client_in_flight)
        = [(2, 1)]
   \<and> waitingMessages (celix_earpmc_disconnectCallback env_memory_exhausted client_in_flight)
        = [3]
   \<and> publishedMessages (celix_earpmc_disconnectCallback env_memory_exhausted client_in_flight)
        = []
   \<and> map_of (publishedMessages (celix_earpmc_disconnectCallback env_memory_exhausted
                client_in_flight)) 0 = None"
  by code_simp

end
